theory Spec2Isabelle
  imports Main
begin

section \<open>The transcription service of app.py\<close>

text \<open>
  The service keeps a process-wide cache of loaded Whisper models
  (\<open>loaded_models\<close>, guarded by \<open>model_lock\<close>) and one request handler,
  \<open>transcribe_audio\<close>. Everything outside the repository (the inference engine,
  the temporary-file library, the file system, the logger) is an external capability:
  its possible outcomes are the fields of an environment record, and its effects are
  written into an explicit state.
\<close>

subsection \<open>Data\<close>

text \<open>
  A raised Python exception: its class name and the text \<open>str(e)\<close>. Only instances of
  \<open>Exception\<close> are modelled, which is what \<open>except Exception\<close> catches.
\<close>

datatype exn = Exception (exc_type: string) (exc_str: string)

datatype level = INFO | WARNING | ERROR

text \<open>An uploaded file part (werkzeug's FileStorage): its filename and its bytes.\<close>

record upload =
  filename :: string
  content :: string

text \<open>The two multipart dictionaries of a request: \<open>request.form\<close> and \<open>request.files\<close>.\<close>

record request =
  form :: "string \<rightharpoonup> string"
  files :: "string \<rightharpoonup> upload"

text \<open>A response: the status code and the JSON object, as its key/value pairs.\<close>

record response =
  status :: nat
  body :: "(string \<times> string) list"

text \<open>
  The process state. \<open>loaded_models\<close> is the global dictionary of the source; \<open>fs\<close> is
  the set of paths that exist in the file system; \<open>logged\<close> is what the logger has
  received. Two fields are traces that the source does not have, kept to count calls:
  \<open>load_calls\<close> lists the arguments of every invocation of \<open>whisper.load_model\<close>, and
  \<open>registry_calls\<close> those of every call of \<open>load_whisper_model\<close>.
\<close>

record 'm state =
  loaded_models :: "string \<rightharpoonup> 'm"
  load_calls :: "string list"
  registry_calls :: "string list"
  fs :: "string set"
  logged :: "(level \<times> string) list"

text \<open>
  The external capabilities. \<open>whisper_load_model\<close> sees the earlier invocations, so that
  it may fail once and succeed later, and may return a new instance at every call.
  \<open>named_temporary_file\<close> is \<open>tempfile.NamedTemporaryFile(delete=False, suffix=...)\<close>:
  from the file system and the suffix, the path of the file it creates, or the exception
  it raises. \<open>file_save\<close> is \<open>FileStorage.save\<close> and \<open>os_remove\<close> is \<open>os.remove\<close>, each
  giving the exception it raises, if any (for \<open>os.remove\<close>, the text of the OSError).
  \<open>model_transcribe\<close> returns the result dictionary. \<open>elapsed\<close> is the rendering of a
  measured duration in the log; clock arithmetic is not modelled. Closing the temporary
  file is taken not to fail.
\<close>

record 'm env =
  whisper_load_model :: "string list \<Rightarrow> string \<Rightarrow> exn + 'm"
  splitext :: "string \<Rightarrow> string \<times> string"
  named_temporary_file :: "string set \<Rightarrow> string \<Rightarrow> exn + string"
  file_save :: "upload \<Rightarrow> string \<Rightarrow> exn option"
  model_transcribe :: "'m \<Rightarrow> string \<Rightarrow> exn + (string \<rightharpoonup> string)"
  os_remove :: "string \<Rightarrow> string option"
  elapsed :: string

definition ALLOWED_MODELS :: "string set" where
  "ALLOWED_MODELS = {''tiny.en'', ''tiny'', ''base.en'', ''base'', ''small.en'', ''small'',
     ''medium.en'', ''medium'', ''large'', ''large-v1'', ''large-v2'', ''large-v3''}"

definition DEFAULT_MODEL :: string where
  "DEFAULT_MODEL = ''base''"

text \<open>The f-string fragment \<open>'{s}'\<close>.\<close>

definition quoted :: "string \<Rightarrow> string" where
  "quoted s = [CHR 0x27] @ s @ [CHR 0x27]"

definition logger :: "level \<Rightarrow> string \<Rightarrow> 'm state \<Rightarrow> 'm state" where
  "logger lvl msg st = st\<lparr>logged := logged st @ [(lvl, msg)]\<rparr>"

subsection \<open>The registry: \<open>load_whisper_model\<close>\<close>

text \<open>
  The body runs under \<open>with model_lock\<close>, so one call is one atomic state change. The
  result \<open>None\<close> is Python's \<open>None\<close>.
\<close>

definition load_whisper_model :: "'m env \<Rightarrow> string \<Rightarrow> 'm state \<Rightarrow> 'm option \<times> 'm state" where
  "load_whisper_model env model_name st0 =
     (let st = st0\<lparr>registry_calls := registry_calls st0 @ [model_name]\<rparr> in
      case loaded_models st model_name of
        Some cached \<Rightarrow> (Some cached, logger INFO (''Using cached model: '' @ model_name) st)
      | None \<Rightarrow>
          (let st1 = logger INFO (''Attempting to load Whisper model: '' @ model_name @ ''...'') st;
               st2 = st1\<lparr>load_calls := load_calls st1 @ [model_name]\<rparr>
           in case whisper_load_model env (load_calls st1) model_name of
                Inr model_instance \<Rightarrow>
                  (let st3 = logger INFO (''Whisper model '' @ quoted model_name
                               @ '' loaded successfully in '' @ elapsed env @ '' seconds.'') st2
                   in (Some model_instance,
                       st3\<lparr>loaded_models := (loaded_models st3)(model_name \<mapsto> model_instance)\<rparr>))
              | Inl e \<Rightarrow>
                  (None, logger ERROR (''Failed to load Whisper model '' @ quoted model_name
                           @ '': '' @ exc_str e) st2)))"

subsection \<open>The handler: \<open>transcribe_audio\<close>\<close>

text \<open>Lines 46 to 53: the model name that the handler goes on with.\<close>

definition requested_model_name :: "request \<Rightarrow> string" where
  "requested_model_name req =
     (case form req ''model_name'' of None \<Rightarrow> DEFAULT_MODEL | Some v \<Rightarrow> v)"

definition actual_model_name :: "request \<Rightarrow> string" where
  "actual_model_name req =
     (if requested_model_name req \<notin> ALLOWED_MODELS then DEFAULT_MODEL
      else requested_model_name req)"

definition jsonify_error :: "string \<Rightarrow> nat \<Rightarrow> response" where
  "jsonify_error msg code = \<lparr>status = code, body = [(''error'', msg)]\<rparr>"

text \<open>
  The body of the \<open>try\<close> block (lines 74 to 90). It gives the response it returns or the
  exception it raises, together with the value of \<open>temp_audio_path\<close> when it is left.
  The assignment to \<open>temp_audio_path\<close> comes after \<open>audio_file.save\<close>.
  \<open>temp_suffix\<close> is the expression \<open>suffix or ".tmp"\<close> of line 75.
\<close>

definition temp_suffix :: "'m env \<Rightarrow> upload \<Rightarrow> string" where
  "temp_suffix env audio_file =
     (let suffix = snd (splitext env (filename audio_file))
      in if suffix = [] then ''.tmp'' else suffix)"

definition try_body ::
  "'m env \<Rightarrow> 'm \<Rightarrow> string \<Rightarrow> upload \<Rightarrow> 'm state \<Rightarrow> (exn + response) \<times> string option \<times> 'm state" where
  "try_body env model name audio_file st =
     (case named_temporary_file env (fs st) (temp_suffix env audio_file) of
        Inl e \<Rightarrow> (Inl e, None, st)
      | Inr temp_name \<Rightarrow>
          (let st1 = st\<lparr>fs := insert temp_name (fs st)\<rparr> in
           case file_save env audio_file temp_name of
             Some e \<Rightarrow> (Inl e, None, st1)
           | None \<Rightarrow>
               (let st2 = logger INFO (''Temporary audio file saved to: '' @ temp_name) st1;
                    st3 = logger INFO (''Starting transcription with model '' @ quoted name
                            @ '' for: '' @ temp_name) st2
                in case model_transcribe env model temp_name of
                     Inl e \<Rightarrow> (Inl e, Some temp_name, st3)
                   | Inr result \<Rightarrow>
                       (let st4 = logger INFO (''Transcription completed in '' @ elapsed env
                                    @ '' seconds for: '' @ temp_name) st3
                        in case result ''text'' of
                             None \<Rightarrow> (Inl (Exception ''KeyError'' (quoted ''text'')),
                                      Some temp_name, st4)
                           | Some text \<Rightarrow>
                               (Inr \<lparr>status = 200,
                                     body = [(''text'', text), (''model_used'', name)]\<rparr>,
                                Some temp_name, st4)))))"

text \<open>The \<open>except Exception\<close> clause (lines 92 to 94).\<close>

definition except_clause :: "(exn + response) \<Rightarrow> 'm state \<Rightarrow> response \<times> 'm state" where
  "except_clause outcome st =
     (case outcome of
        Inr resp \<Rightarrow> (resp, st)
      | Inl e \<Rightarrow>
          (jsonify_error (''An internal error occurred during transcription: '' @ exc_str e) 500,
           logger ERROR (''An error occurred during transcription: '' @ exc_str e) st))"

text \<open>The \<open>finally\<close> clause (lines 96 to 102).\<close>

definition finally_clause :: "'m env \<Rightarrow> string option \<Rightarrow> 'm state \<Rightarrow> 'm state" where
  "finally_clause env temp_audio_path st =
     (case temp_audio_path of
        None \<Rightarrow> st
      | Some p \<Rightarrow>
          if p \<noteq> [] \<and> p \<in> fs st then
            (case os_remove env p of
               None \<Rightarrow> logger INFO (''Removed temporary file: '' @ p) (st\<lparr>fs := fs st - {p}\<rparr>)
             | Some msg \<Rightarrow>
                 logger ERROR (''Error removing temporary file '' @ p @ '': '' @ msg) st)
          else st)"

definition transcribe_audio :: "'m env \<Rightarrow> request \<Rightarrow> 'm state \<Rightarrow> response \<times> 'm state" where
  "transcribe_audio env req st0 =
     (let st1 = logger INFO (''Received transcription request, initially asking for model: ''
                  @ quoted (requested_model_name req)) st0;
          st2 = (if requested_model_name req \<notin> ALLOWED_MODELS
                 then logger WARNING (''Requested model '' @ quoted (requested_model_name req)
                        @ '' is not in ALLOWED_MODELS. Falling back to default ''
                        @ quoted DEFAULT_MODEL @ ''.'') st1
                 else st1);
          name = actual_model_name req;
          st3 = logger INFO (''Attempting to use model: '' @ quoted name) st2;
          (model, st4) = load_whisper_model env name st3
      in case model of
           None \<Rightarrow>
             (jsonify_error (''Whisper model '' @ quoted name
                @ '' is not available or failed to load.'') 503, st4)
         | Some m \<Rightarrow>
             (case files req ''audio_file'' of
                None \<Rightarrow>
                  (jsonify_error ''No audio file part in the request'' 400,
                   logger WARNING (''Request received without '' @ quoted ''audio_file''
                     @ '' part.'') st4)
              | Some audio_file \<Rightarrow>
                  if filename audio_file = [] then
                    (jsonify_error ''No selected audio file (empty filename)'' 400,
                     logger WARNING
                       ''Request received with an empty filename for the audio file.'' st4)
                  else
                    (let (outcome, temp_audio_path, st5) = try_body env m name audio_file st4;
                         (resp, st6) = except_clause outcome st5
                     in (resp, finally_clause env temp_audio_path st6))))"

text \<open>
  Whether a fetch of \<open>name\<close> in state \<open>st\<close> yields a model: the name is cached, or the
  engine's next load of it returns an instance.
\<close>

definition loads_ok :: "'m env \<Rightarrow> 'm state \<Rightarrow> string \<Rightarrow> bool" where
  "loads_ok env st name =
     (case loaded_models st name of
        Some _ \<Rightarrow> True
      | None \<Rightarrow> (case whisper_load_model env (load_calls st) name of
                   Inr _ \<Rightarrow> True | Inl _ \<Rightarrow> False))"

subsection \<open>Runs of the service\<close>

text \<open>The state at process start: nothing is cached, no file exists, nothing is logged.\<close>

definition init_state :: "'m state" where
  "init_state = \<lparr>loaded_models = Map.empty, load_calls = [], registry_calls = [],
                  fs = {}, logged = []\<rparr>"

text \<open>What happens to the process, one after the other: fetches and requests.\<close>

datatype event = Fetch string | Post request

fun run_event :: "'m env \<Rightarrow> event \<Rightarrow> 'm state \<Rightarrow> 'm state" where
  "run_event env (Fetch name) st = snd (load_whisper_model env name st)"
| "run_event env (Post req) st = snd (transcribe_audio env req st)"

fun run_events :: "'m env \<Rightarrow> event list \<Rightarrow> 'm state \<Rightarrow> 'm state" where
  "run_events env [] st = st"
| "run_events env (ev # evs) st = run_events env evs (run_event env ev st)"

text \<open>
  Every cached instance is what some invocation of \<open>whisper.load_model\<close> for that
  identifier returned.
\<close>

definition cache_sound :: "'m env \<Rightarrow> 'm state \<Rightarrow> bool" where
  "cache_sound env st =
     (\<forall>name m. loaded_models st name = Some m \<longrightarrow>
        (\<exists>i < length (load_calls st).
           load_calls st ! i = name \<and>
           whisper_load_model env (take i (load_calls st)) name = Inr m))"

subsection \<open>Concurrent callers of \<open>load_whisper_model\<close>\<close>

text \<open>
  Worker threads call \<open>load_whisper_model\<close> at the same time. Each caller is at one of
  the sequence points of the function: before \<open>with model_lock\<close> (line 25); holding the
  lock, before the cache test (line 26); after a miss, before \<open>whisper.load_model\<close>
  (line 33); after the engine returned an instance, before the insertion (line 36);
  after the engine raised, in the \<open>except\<close> clause (line 39); at a \<open>return\<close>, the lock
  still held; and after the call, with the value it returned.
\<close>

datatype 'm pc =
    Start
  | Locked
  | Loading
  | Loaded 'm
  | Failed exn
  | Leaving "'m option"
  | Done "'m option"

text \<open>
  A configuration: for each caller the identifier it asked for and its sequence point,
  whether \<open>model_lock\<close> is held (a \<open>threading.Lock\<close> has no owner), and the process
  state the callers share.
\<close>

record 'm config =
  threads :: "(string \<times> 'm pc) list"
  lock_held :: bool
  shared :: "'m state"

text \<open>
  One step of caller \<open>i\<close>, or \<open>None\<close> when it cannot move: it has returned, or it waits
  for the lock. The trace entry of \<open>registry_calls\<close> is written with the acquisition.
\<close>

definition thread_step :: "'m env \<Rightarrow> nat \<Rightarrow> 'm config \<Rightarrow> 'm config option" where
  "thread_step env i c =
     (if length (threads c) \<le> i then None
      else
        (let model_name = fst (threads c ! i);
             st = shared c;
             goto = (\<lambda>p. (threads c)[i := (model_name, p)])
         in case snd (threads c ! i) of
              Start \<Rightarrow>
                if lock_held c then None
                else Some (c\<lparr>threads := goto Locked, lock_held := True,
                             shared := st\<lparr>registry_calls := registry_calls st @ [model_name]\<rparr>\<rparr>)
            | Locked \<Rightarrow>
                (case loaded_models st model_name of
                   Some cached \<Rightarrow>
                     Some (c\<lparr>threads := goto (Leaving (Some cached)),
                              shared := logger INFO (''Using cached model: '' @ model_name) st\<rparr>)
                 | None \<Rightarrow>
                     Some (c\<lparr>threads := goto Loading,
                              shared := logger INFO (''Attempting to load Whisper model: ''
                                          @ model_name @ ''...'') st\<rparr>))
            | Loading \<Rightarrow>
                (let st2 = st\<lparr>load_calls := load_calls st @ [model_name]\<rparr>
                 in case whisper_load_model env (load_calls st) model_name of
                      Inr model_instance \<Rightarrow>
                        Some (c\<lparr>threads := goto (Loaded model_instance), shared := st2\<rparr>)
                    | Inl e \<Rightarrow> Some (c\<lparr>threads := goto (Failed e), shared := st2\<rparr>))
            | Loaded model_instance \<Rightarrow>
                (let st3 = logger INFO (''Whisper model '' @ quoted model_name
                             @ '' loaded successfully in '' @ elapsed env @ '' seconds.'') st
                 in Some (c\<lparr>threads := goto (Leaving (Some model_instance)),
                             shared := st3\<lparr>loaded_models :=
                                           (loaded_models st3)(model_name \<mapsto> model_instance)\<rparr>\<rparr>))
            | Failed e \<Rightarrow>
                Some (c\<lparr>threads := goto (Leaving None),
                         shared := logger ERROR (''Failed to load Whisper model ''
                                     @ quoted model_name @ '': '' @ exc_str e) st\<rparr>)
            | Leaving r \<Rightarrow> Some (c\<lparr>threads := goto (Done r), lock_held := False\<rparr>)
            | Done r \<Rightarrow> None))"

text \<open>
  A schedule names, step after step, the caller that the scheduler picks; picking a
  caller that cannot move changes nothing. Every interleaving is the run of a schedule.
\<close>

fun run_schedule :: "'m env \<Rightarrow> nat list \<Rightarrow> 'm config \<Rightarrow> 'm config" where
  "run_schedule env [] c = c"
| "run_schedule env (i # sched) c =
     run_schedule env sched (case thread_step env i c of None \<Rightarrow> c | Some c' \<Rightarrow> c')"

text \<open>\<open>n\<close> callers that are about to fetch the same identifier, in process state \<open>st\<close>.\<close>

definition start_config :: "nat \<Rightarrow> string \<Rightarrow> 'm state \<Rightarrow> 'm config" where
  "start_config n model_name st =
     \<lparr>threads = replicate n (model_name, Start), lock_held = False, shared = st\<rparr>"

text \<open>A caller is inside the \<open>with model_lock\<close> block.\<close>

fun in_block :: "'m pc \<Rightarrow> bool" where
  "in_block Start = False"
| "in_block (Done r) = False"
| "in_block p = True"

text \<open>
  The lock is held exactly when some caller is inside the block, and no two callers are
  inside the block together.
\<close>

definition guard_ok :: "'m config \<Rightarrow> bool" where
  "guard_ok c =
     ((lock_held c \<longleftrightarrow> (\<exists>i < length (threads c). in_block (snd (threads c ! i))))
      \<and> (\<forall>i < length (threads c). \<forall>j < length (threads c).
            in_block (snd (threads c ! i)) \<and> in_block (snd (threads c ! j)) \<longrightarrow> i = j))"

text \<open>The callers that have returned, with the value each one received.\<close>

definition returned :: "'m config \<Rightarrow> 'm option list" where
  "returned c = concat (map (\<lambda>t. case snd t of Done r \<Rightarrow> [r] | _ \<Rightarrow> []) (threads c))"

definition all_done :: "'m config \<Rightarrow> bool" where
  "all_done c = (\<forall>t \<in> set (threads c). case snd t of Done r \<Rightarrow> True | _ \<Rightarrow> False)"

text \<open>An upper bound of the steps a caller still has to take, and their sum.\<close>

fun steps_left :: "'m pc \<Rightarrow> nat" where
  "steps_left Start = 5"
| "steps_left Locked = 4"
| "steps_left Loading = 3"
| "steps_left (Loaded m) = 2"
| "steps_left (Failed e) = 2"
| "steps_left (Leaving r) = 1"
| "steps_left (Done r) = 0"

definition work_left :: "'m config \<Rightarrow> nat" where
  "work_left c = sum_list (map (\<lambda>t. steps_left (snd t)) (threads c))"

text \<open>
  Whether a caller has been through its invocation of \<open>whisper.load_model\<close>, when no
  caller finds the identifier cached; and the number of such callers.
\<close>

fun load_attempted :: "'m pc \<Rightarrow> nat" where
  "load_attempted Start = 0"
| "load_attempted Locked = 0"
| "load_attempted Loading = 0"
| "load_attempted p = 1"

definition past_load :: "'m config \<Rightarrow> nat" where
  "past_load c = sum_list (map (\<lambda>t. load_attempted (snd t)) (threads c))"

text \<open>
  The invariant of the callers of one identifier whose first load returns \<open>m\<close>. Either
  nobody has invoked the engine, or one caller has and is about to insert \<open>m\<close> while
  all the others still wait, or \<open>m\<close> is cached and every caller that got a value got \<open>m\<close>.
\<close>

definition loads_once :: "string \<Rightarrow> 'm \<Rightarrow> string list \<Rightarrow> 'm config \<Rightarrow> bool" where
  "loads_once model_name m calls0 c =
     (guard_ok c \<and> (\<forall>j < length (threads c). fst (threads c ! j) = model_name) \<and>
      (loaded_models (shared c) model_name = None \<and> load_calls (shared c) = calls0
         \<and> (\<forall>j < length (threads c). snd (threads c ! j) \<in> {Start, Locked, Loading})
       \<or> loaded_models (shared c) model_name = None
         \<and> load_calls (shared c) = calls0 @ [model_name]
         \<and> (\<exists>j < length (threads c). snd (threads c ! j) = Loaded m)
         \<and> (\<forall>j < length (threads c). snd (threads c ! j) \<in> {Start, Loaded m})
       \<or> loaded_models (shared c) model_name = Some m
         \<and> load_calls (shared c) = calls0 @ [model_name]
         \<and> (\<forall>j < length (threads c).
               snd (threads c ! j) \<in> {Start, Locked, Leaving (Some m), Done (Some m)})))"

text \<open>
  The invariant of the callers of one identifier that the engine never loads: nothing is
  cached, nobody holds a value, and the engine has been invoked once by each caller that
  is through its attempt.
\<close>

definition loads_each_time :: "string \<Rightarrow> string list \<Rightarrow> 'm config \<Rightarrow> bool" where
  "loads_each_time model_name calls0 c =
     ((\<forall>j < length (threads c). fst (threads c ! j) = model_name)
      \<and> loaded_models (shared c) model_name = None
      \<and> load_calls (shared c) = calls0 @ replicate (past_load c) model_name
      \<and> (\<forall>j < length (threads c). case snd (threads c ! j) of
            Loaded m \<Rightarrow> False | Leaving r \<Rightarrow> r = None | Done r \<Rightarrow> r = None | _ \<Rightarrow> True))"

text \<open>
  Whether a caller's own load attempt has failed (it is in the \<open>except\<close> clause, or
  leaves or has left with \<open>None\<close>); and the number of such callers.
\<close>

fun got_none :: "'m pc \<Rightarrow> nat" where
  "got_none (Failed e) = 1"
| "got_none (Leaving None) = 1"
| "got_none (Done None) = 1"
| "got_none p = 0"

definition failed_callers :: "'m config \<Rightarrow> nat" where
  "failed_callers c = sum_list (map (\<lambda>t. got_none (snd t)) (threads c))"

text \<open>
  The outcome of the invocation of \<open>whisper.load_model\<close> that comes after \<open>j\<close> earlier
  ones for the same identifier, and: the first \<open>k\<close> invocations all raise.
\<close>

definition attempt :: "'m env \<Rightarrow> string list \<Rightarrow> string \<Rightarrow> nat \<Rightarrow> exn + 'm" where
  "attempt env calls0 model_name j =
     whisper_load_model env (calls0 @ replicate j model_name) model_name"

definition all_failed :: "'m env \<Rightarrow> string list \<Rightarrow> string \<Rightarrow> nat \<Rightarrow> bool" where
  "all_failed env calls0 model_name k =
     (\<forall>j < k. \<exists>e. attempt env calls0 model_name j = Inl e)"

text \<open>
  The invariant of the callers of one identifier, whatever the engine does. Every caller
  whose attempt is over without an instance stands for one failed invocation. Either no
  invocation has succeeded yet and nothing is cached; or the invocation after the failed
  ones returned \<open>m\<close>, and then either its caller is about to insert \<open>m\<close> while the
  others wait or have left with \<open>None\<close>, or \<open>m\<close> is cached and is the only instance
  that callers hold.
\<close>

definition fetch_inv :: "'m env \<Rightarrow> string \<Rightarrow> string list \<Rightarrow> 'm config \<Rightarrow> bool" where
  "fetch_inv env model_name calls0 c =
     (guard_ok c
      \<and> (\<forall>j < length (threads c). fst (threads c ! j) = model_name)
      \<and> all_failed env calls0 model_name (failed_callers c)
      \<and> (loaded_models (shared c) model_name = None
           \<and> load_calls (shared c) = calls0 @ replicate (failed_callers c) model_name
           \<and> (\<forall>j < length (threads c). case snd (threads c ! j) of
                 Loaded m \<Rightarrow> False | Leaving r \<Rightarrow> r = None | Done r \<Rightarrow> r = None | _ \<Rightarrow> True)
         \<or> (\<exists>m. attempt env calls0 model_name (failed_callers c) = Inr m
              \<and> load_calls (shared c) = calls0 @ replicate (Suc (failed_callers c)) model_name
              \<and> (loaded_models (shared c) model_name = None
                   \<and> (\<exists>j < length (threads c). snd (threads c ! j) = Loaded m)
                   \<and> (\<forall>j < length (threads c).
                         snd (threads c ! j) \<in> {Start, Loaded m, Done None})
                 \<or> loaded_models (shared c) model_name = Some m
                   \<and> (\<exists>j < length (threads c).
                         snd (threads c ! j) \<in> {Leaving (Some m), Done (Some m)})
                   \<and> (\<forall>j < length (threads c).
                         snd (threads c ! j)
                           \<in> {Start, Locked, Leaving (Some m), Done (Some m), Done None})))))"

text \<open>
  The request is served to the end with the text \<open>t\<close>: the selected model is fetched,
  the audio part is there with a filename, and the upload is saved and then transcribed
  by the fetched instance.
\<close>

definition served :: "'m env \<Rightarrow> request \<Rightarrow> 'm state \<Rightarrow> string \<Rightarrow> bool" where
  "served env req st t =
     (\<exists>m up p result.
        fst (load_whisper_model env (actual_model_name req) st) = Some m
        \<and> files req ''audio_file'' = Some up \<and> filename up \<noteq> []
        \<and> named_temporary_file env (fs st) (temp_suffix env up) = Inr p
        \<and> file_save env up p = None
        \<and> model_transcribe env m p = Inr result
        \<and> result ''text'' = Some t)"

subsection \<open>Concrete scenarios\<close>

text \<open>
  An engine that returns a new instance at each invocation (the instance is numbered by
  the invocation), a file system where everything succeeds, and variations of it.
\<close>

definition env_ok :: "nat env" where
  "env_ok = \<lparr>whisper_load_model = (\<lambda>history name. Inr (length history)),
             splitext = (\<lambda>p. (takeWhile (\<lambda>c. c \<noteq> CHR ''.'') p, dropWhile (\<lambda>c. c \<noteq> CHR ''.'') p)),
             named_temporary_file = (\<lambda>fsys suffix. Inr (''/tmp/tmpq3x'' @ suffix)),
             file_save = (\<lambda>audio_file path. None),
             model_transcribe = (\<lambda>model path. Inr [''text'' \<mapsto> ''hello world'']),
             os_remove = (\<lambda>path. None),
             elapsed = ''0.50''\<rparr>"

definition env_load_fails :: "string \<Rightarrow> string \<Rightarrow> nat env" where
  "env_load_fails cls msg =
     env_ok\<lparr>whisper_load_model := (\<lambda>history name. Inl (Exception cls msg))\<rparr>"

definition env_load_fails_once :: "nat env" where
  "env_load_fails_once =
     env_ok\<lparr>whisper_load_model := (\<lambda>history name.
        if history = [] then Inl (Exception ''RuntimeError'' ''download interrupted'')
        else Inr (length history))\<rparr>"

definition env_tempfile_fails :: "nat env" where
  "env_tempfile_fails =
     env_ok\<lparr>named_temporary_file := (\<lambda>fsys suffix.
        Inl (Exception ''OSError'' ''[Errno 30] Read-only file system''))\<rparr>"

definition env_save_fails :: "nat env" where
  "env_save_fails =
     env_ok\<lparr>file_save := (\<lambda>audio_file path.
        Some (Exception ''OSError'' ''[Errno 28] No space left on device''))\<rparr>"

definition env_transcribe_fails :: "nat env" where
  "env_transcribe_fails =
     env_ok\<lparr>model_transcribe := (\<lambda>model path.
        Inl (Exception ''RuntimeError'' ''Failed to load audio''))\<rparr>"

definition req_tiny_wav :: request where
  "req_tiny_wav = \<lparr>form = [''model_name'' \<mapsto> ''tiny''],
                   files = [''audio_file'' \<mapsto> \<lparr>filename = ''a.wav'', content = ''RIFF''\<rparr>]\<rparr>"

definition req_unknown_model :: request where
  "req_unknown_model = \<lparr>form = [''model_name'' \<mapsto> ''not-a-real-model''],
                        files = [''audio_file'' \<mapsto> \<lparr>filename = ''a.wav'', content = ''RIFF''\<rparr>]\<rparr>"

definition req_no_audio :: request where
  "req_no_audio = \<lparr>form = Map.empty, files = Map.empty\<rparr>"

definition req_empty_filename :: request where
  "req_empty_filename = \<lparr>form = Map.empty,
                         files = [''audio_file'' \<mapsto> \<lparr>filename = [], content = []\<rparr>]\<rparr>"

section \<open>Properties of the registry\<close>

lemma logger_fields [simp]:
  "loaded_models (logger lvl msg st) = loaded_models st"
  "load_calls (logger lvl msg st) = load_calls st"
  "registry_calls (logger lvl msg st) = registry_calls st"
  "fs (logger lvl msg st) = fs st"
  "logged (logger lvl msg st) = logged st @ [(lvl, msg)]"
  by (simp_all add: logger_def)

lemma load_cached:
  assumes "loaded_models st name = Some m"
  shows "fst (load_whisper_model env name st) = Some m"
    and "loaded_models (snd (load_whisper_model env name st)) = loaded_models st"
    and "load_calls (snd (load_whisper_model env name st)) = load_calls st"
  using assms by (simp_all add: load_whisper_model_def)

lemma load_fresh_ok:
  assumes "loaded_models st name = None"
      and "whisper_load_model env (load_calls st) name = Inr m"
  shows "fst (load_whisper_model env name st) = Some m"
    and "loaded_models (snd (load_whisper_model env name st)) = (loaded_models st)(name \<mapsto> m)"
    and "load_calls (snd (load_whisper_model env name st)) = load_calls st @ [name]"
  using assms by (simp_all add: load_whisper_model_def Let_def)

lemma load_fresh_fails:
  assumes "loaded_models st name = None"
      and "whisper_load_model env (load_calls st) name = Inl e"
  shows "fst (load_whisper_model env name st) = None"
    and "loaded_models (snd (load_whisper_model env name st)) = loaded_models st"
    and "load_calls (snd (load_whisper_model env name st)) = load_calls st @ [name]"
  using assms by (simp_all add: load_whisper_model_def Let_def)

lemma load_fs [simp]: "fs (snd (load_whisper_model env name st)) = fs st"
  by (simp add: load_whisper_model_def Let_def split: option.splits sum.splits)

lemma load_registry_calls [simp]:
  "registry_calls (snd (load_whisper_model env name st)) = registry_calls st @ [name]"
  by (simp add: load_whisper_model_def Let_def split: option.splits sum.splits)

lemma loads_ok_logger [simp]: "loads_ok env (logger lvl msg st) name = loads_ok env st name"
  by (simp add: loads_ok_def split: option.splits)

lemma load_result_iff: "(fst (load_whisper_model env name st) = None) = (\<not> loads_ok env st name)"
  by (simp add: load_whisper_model_def loads_ok_def Let_def split: option.splits sum.splits)

lemma load_preserves_sound:
  assumes "cache_sound env st"
  shows "cache_sound env (snd (load_whisper_model env name st))"
proof (cases "loaded_models st name")
  case (Some m)
  then show ?thesis
    using assms by (simp add: cache_sound_def load_cached)
next
  case None
  show ?thesis
  proof (cases "whisper_load_model env (load_calls st) name")
    case (Inl e)
    have lm: "loaded_models (snd (load_whisper_model env name st)) = loaded_models st"
      and lc: "load_calls (snd (load_whisper_model env name st)) = load_calls st @ [name]"
      using None Inl by (rule load_fresh_fails)+
    show ?thesis
      unfolding cache_sound_def lm lc
    proof (intro allI impI)
      fix n m assume "loaded_models st n = Some m"
      with assms obtain i where i: "i < length (load_calls st)" "load_calls st ! i = n"
        "whisper_load_model env (take i (load_calls st)) n = Inr m"
        unfolding cache_sound_def by blast
      then show "\<exists>i<length (load_calls st @ [name]). (load_calls st @ [name]) ! i = n \<and>
          whisper_load_model env (take i (load_calls st @ [name])) n = Inr m"
        by (intro exI[of _ i]) (simp add: nth_append)
    qed
  next
    case (Inr m')
    have lm: "loaded_models (snd (load_whisper_model env name st)) = (loaded_models st)(name \<mapsto> m')"
      and lc: "load_calls (snd (load_whisper_model env name st)) = load_calls st @ [name]"
      using None Inr by (rule load_fresh_ok)+
    show ?thesis
      unfolding cache_sound_def lm lc
    proof (intro allI impI)
      fix n m assume h: "((loaded_models st)(name \<mapsto> m')) n = Some m"
      show "\<exists>i<length (load_calls st @ [name]). (load_calls st @ [name]) ! i = n \<and>
          whisper_load_model env (take i (load_calls st @ [name])) n = Inr m"
      proof (cases "n = name")
        case True
        with h have "m = m'" by simp
        with True Inr show ?thesis
          by (intro exI[of _ "length (load_calls st)"]) simp
      next
        case False
        with h have "loaded_models st n = Some m" by simp
        with assms obtain i where i: "i < length (load_calls st)" "load_calls st ! i = n"
          "whisper_load_model env (take i (load_calls st)) n = Inr m"
          unfolding cache_sound_def by blast
        then show ?thesis
          by (intro exI[of _ i]) (simp add: nth_append)
      qed
    qed
  qed
qed

lemma try_body_fields:
  "loaded_models (snd (snd (try_body env m name up st))) = loaded_models st"
  "load_calls (snd (snd (try_body env m name up st))) = load_calls st"
  "registry_calls (snd (snd (try_body env m name up st))) = registry_calls st"
  by (simp_all add: try_body_def Let_def split: sum.splits option.splits)

lemma except_clause_fields:
  "loaded_models (snd (except_clause outcome st)) = loaded_models st"
  "load_calls (snd (except_clause outcome st)) = load_calls st"
  "registry_calls (snd (except_clause outcome st)) = registry_calls st"
  by (simp_all add: except_clause_def split: sum.splits)

lemma finally_clause_fields:
  "loaded_models (finally_clause env p st) = loaded_models st"
  "load_calls (finally_clause env p st) = load_calls st"
  "registry_calls (finally_clause env p st) = registry_calls st"
  by (simp_all add: finally_clause_def split: option.splits)

lemma load_logger_fields:
  "loaded_models (snd (load_whisper_model env name (logger lvl msg st)))
     = loaded_models (snd (load_whisper_model env name st))"
  "load_calls (snd (load_whisper_model env name (logger lvl msg st)))
     = load_calls (snd (load_whisper_model env name st))"
  by (simp_all add: load_whisper_model_def Let_def split: option.splits sum.splits)

lemma transcribe_audio_cache:
  "loaded_models (snd (transcribe_audio env req st))
     = loaded_models (snd (load_whisper_model env (actual_model_name req) st))"
  "load_calls (snd (transcribe_audio env req st))
     = load_calls (snd (load_whisper_model env (actual_model_name req) st))"
  by (simp_all add: transcribe_audio_def Let_def case_prod_beta load_logger_fields try_body_fields
        except_clause_fields finally_clause_fields
        split: option.splits)

text \<open>
  C1. Two fetches of the same identifier, the first of which loads the model
  successfully, both return that one instance, and across the two calls
  \<open>whisper.load_model\<close> is invoked exactly once (with that identifier).
\<close>

theorem C1_idempotent_caching:
  assumes "loaded_models st name = None"
      and "whisper_load_model env (load_calls st) name = Inr m"
  shows "fst (load_whisper_model env name st) = Some m
       \<and> fst (load_whisper_model env name (snd (load_whisper_model env name st))) = Some m
       \<and> load_calls (snd (load_whisper_model env name (snd (load_whisper_model env name st))))
           = load_calls st @ [name]"
proof -
  let ?st1 = "snd (load_whisper_model env name st)"
  have first: "fst (load_whisper_model env name st) = Some m"
    using assms by (rule load_fresh_ok(1))
  have "loaded_models ?st1 = (loaded_models st)(name \<mapsto> m)"
    using assms by (rule load_fresh_ok(2))
  then have cached: "loaded_models ?st1 name = Some m"
    by simp
  have calls1: "load_calls ?st1 = load_calls st @ [name]"
    using assms by (rule load_fresh_ok(3))
  have second: "fst (load_whisper_model env name ?st1) = Some m"
    using cached by (rule load_cached(1))
  have "load_calls (snd (load_whisper_model env name ?st1)) = load_calls ?st1"
    using cached by (rule load_cached(3))
  with calls1 first second show ?thesis
    by simp
qed

theorem C1_witness:
  "loaded_models (init_state :: nat state) ''tiny'' = None
   \<and> whisper_load_model env_ok (load_calls (init_state :: nat state)) ''tiny'' = Inr 0
   \<and> fst (load_whisper_model env_ok ''tiny'' init_state) = Some 0
   \<and> fst (load_whisper_model env_ok ''tiny'' (snd (load_whisper_model env_ok ''tiny'' init_state)))
       = Some 0
   \<and> load_calls (snd (load_whisper_model env_ok ''tiny''
         (snd (load_whisper_model env_ok ''tiny'' init_state)))) = [''tiny'']"
proof -
  have h1: "loaded_models (init_state :: nat state) ''tiny'' = None"
    by (simp add: init_state_def)
  have h2: "whisper_load_model env_ok (load_calls (init_state :: nat state)) ''tiny'' = Inr 0"
    by (simp add: init_state_def env_ok_def)
  from C1_idempotent_caching [OF h1 h2] h1 h2 show ?thesis
    by (simp add: init_state_def)
qed

lemma load_miss_calls:
  assumes "loaded_models st name = None"
  shows "load_calls (snd (load_whisper_model env name st)) = load_calls st @ [name]"
  using assms by (simp add: load_whisper_model_def Let_def split: sum.splits)

lemma cache_sound_cong:
  assumes "loaded_models a = loaded_models b" and "load_calls a = load_calls b"
  shows "cache_sound env a = cache_sound env b"
  using assms by (simp add: cache_sound_def)

lemma run_event_sound:
  assumes "cache_sound env st"
  shows "cache_sound env (run_event env ev st)"
proof (cases ev)
  case (Fetch name)
  with assms show ?thesis
    by (simp add: load_preserves_sound)
next
  case (Post req)
  have "cache_sound env (snd (transcribe_audio env req st))
      = cache_sound env (snd (load_whisper_model env (actual_model_name req) st))"
    by (rule cache_sound_cong) (rule transcribe_audio_cache)+
  with assms Post show ?thesis
    by (simp add: load_preserves_sound)
qed

lemma run_events_sound:
  "cache_sound env st \<Longrightarrow> cache_sound env (run_events env evs st)"
  by (induction evs arbitrary: st) (simp_all add: run_event_sound)

lemma init_state_sound: "cache_sound env init_state"
  by (simp add: cache_sound_def init_state_def)

text \<open>
  C2. When the engine raises on a load attempt, the fetch returns nothing and the mapping
  is exactly what it was; a second fetch of the same identifier invokes
  \<open>whisper.load_model\<close> again (two invocations in all). And after any sequence of fetches
  and requests from process start, every entry of the mapping is an instance that an
  invocation of \<open>whisper.load_model\<close> for that identifier returned.
\<close>

theorem C2_failed_load_leaves_no_entry:
  assumes "loaded_models st name = None"
      and "whisper_load_model env (load_calls st) name = Inl e"
  shows "fst (load_whisper_model env name st) = None
       \<and> loaded_models (snd (load_whisper_model env name st)) = loaded_models st
       \<and> load_calls (snd (load_whisper_model env name (snd (load_whisper_model env name st))))
           = load_calls st @ [name, name]
       \<and> cache_sound env (run_events env evs init_state)"
proof -
  let ?st1 = "snd (load_whisper_model env name st)"
  have r: "fst (load_whisper_model env name st) = None"
    using assms by (rule load_fresh_fails(1))
  have lm: "loaded_models ?st1 = loaded_models st"
    using assms by (rule load_fresh_fails(2))
  have lc: "load_calls ?st1 = load_calls st @ [name]"
    using assms by (rule load_fresh_fails(3))
  from lm assms(1) have "loaded_models ?st1 name = None"
    by simp
  then have "load_calls (snd (load_whisper_model env name ?st1)) = load_calls ?st1 @ [name]"
    by (rule load_miss_calls)
  with lc have again: "load_calls (snd (load_whisper_model env name ?st1)) = load_calls st @ [name, name]"
    by simp
  have "cache_sound env (run_events env evs init_state)"
    using init_state_sound by (rule run_events_sound)
  with r lm again show ?thesis
    by simp
qed

theorem C2_witness:
  "loaded_models (init_state :: nat state) ''tiny'' = None
   \<and> whisper_load_model env_load_fails_once (load_calls (init_state :: nat state)) ''tiny''
       = Inl (Exception ''RuntimeError'' ''download interrupted'')
   \<and> fst (load_whisper_model env_load_fails_once ''tiny'' init_state) = None
   \<and> loaded_models (snd (load_whisper_model env_load_fails_once ''tiny'' init_state)) ''tiny'' = None
   \<and> load_calls (snd (load_whisper_model env_load_fails_once ''tiny''
         (snd (load_whisper_model env_load_fails_once ''tiny'' init_state)))) = [''tiny'', ''tiny'']
   \<and> loaded_models (run_events env_load_fails_once [Fetch ''tiny'', Fetch ''tiny''] init_state) ''tiny''
       = Some 1
   \<and> cache_sound env_load_fails_once
        (run_events env_load_fails_once [Fetch ''tiny'', Fetch ''tiny''] init_state)"
proof -
  have h1: "loaded_models (init_state :: nat state) ''tiny'' = None"
    by (simp add: init_state_def)
  have h2: "whisper_load_model env_load_fails_once (load_calls (init_state :: nat state)) ''tiny''
       = Inl (Exception ''RuntimeError'' ''download interrupted'')"
    by (simp add: init_state_def env_load_fails_once_def env_ok_def)
  have run: "loaded_models (run_events env_load_fails_once [Fetch ''tiny'', Fetch ''tiny''] init_state) ''tiny''
       = Some 1"
    by (simp add: init_state_def env_load_fails_once_def env_ok_def load_whisper_model_def Let_def logger_def)
  from C2_failed_load_leaves_no_entry [OF h1 h2, of "[Fetch ''tiny'', Fetch ''tiny'']"] h1 h2 run
  show ?thesis
    by (simp add: init_state_def)
qed

text \<open>
  C5 (amended). When the engine raises on a load attempt, the fetch returns the bare
  \<open>None\<close> and raises nothing, the mapping is unchanged, and the identifier and the text of
  the exception go to the log only, in one ERROR record.
\<close>

theorem C5_load_failure_is_None_and_logged:
  assumes "loaded_models st name = None"
      and "whisper_load_model env (load_calls st) name = Inl e"
  shows "fst (load_whisper_model env name st) = None
       \<and> loaded_models (snd (load_whisper_model env name st)) = loaded_models st
       \<and> logged (snd (load_whisper_model env name st))
           = logged st @ [(INFO, ''Attempting to load Whisper model: '' @ name @ ''...''),
                          (ERROR, ''Failed to load Whisper model '' @ quoted name @ '': '' @ exc_str e)]"
  using assms by (simp add: load_whisper_model_def Let_def)

theorem C5_witness:
  "loaded_models (init_state :: nat state) ''tiny'' = None
   \<and> whisper_load_model (env_load_fails ''RuntimeError'' ''CUDA out of memory'')
        (load_calls (init_state :: nat state)) ''tiny''
       = Inl (Exception ''RuntimeError'' ''CUDA out of memory'')
   \<and> fst (load_whisper_model (env_load_fails ''RuntimeError'' ''CUDA out of memory'') ''tiny'' init_state)
       = None
   \<and> logged (snd (load_whisper_model (env_load_fails ''RuntimeError'' ''CUDA out of memory'')
        ''tiny'' init_state))
       = [(INFO, ''Attempting to load Whisper model: tiny...''),
          (ERROR, ''Failed to load Whisper model 'tiny': CUDA out of memory'')]"
proof -
  have h1: "loaded_models (init_state :: nat state) ''tiny'' = None"
    by (simp add: init_state_def)
  have h2: "whisper_load_model (env_load_fails ''RuntimeError'' ''CUDA out of memory'')
        (load_calls (init_state :: nat state)) ''tiny''
       = Inl (Exception ''RuntimeError'' ''CUDA out of memory'')"
    by (simp add: env_load_fails_def env_ok_def)
  from C5_load_failure_is_None_and_logged [OF h1 h2] h1 h2 show ?thesis
    by (simp add: init_state_def quoted_def)
qed

text \<open>
  Two failed loads, of different identifiers and with different causes, return the same
  value, \<open>None\<close>: the returned value carries neither the identifier nor the cause.
\<close>

theorem C5_counterexample:
  "whisper_load_model (env_load_fails ''RuntimeError'' ''CUDA out of memory'') [] ''tiny''
     = Inl (Exception ''RuntimeError'' ''CUDA out of memory'')
   \<and> whisper_load_model (env_load_fails ''OSError'' ''checkpoint not found'') [] ''base''
     = Inl (Exception ''OSError'' ''checkpoint not found'')
   \<and> fst (load_whisper_model (env_load_fails ''RuntimeError'' ''CUDA out of memory'') ''tiny'' init_state)
     = None
   \<and> fst (load_whisper_model (env_load_fails ''OSError'' ''checkpoint not found'') ''base'' init_state)
     = None"
  by (simp add: env_load_fails_def env_ok_def load_whisper_model_def init_state_def Let_def)

lemma load_logger_result:
  "fst (load_whisper_model env name (logger lvl msg st)) = fst (load_whisper_model env name st)"
  by (simp add: load_whisper_model_def Let_def split: option.splits sum.splits)

lemma load_logger_fs:
  "fs (snd (load_whisper_model env name (logger lvl msg st))) = fs st"
  by simp

text \<open>The handler, once the model has been fetched: the three ways it goes on.\<close>

lemma transcribe_audio_unavailable:
  assumes "fst (load_whisper_model env (actual_model_name req) st) = None"
  shows "fst (transcribe_audio env req st)
           = jsonify_error (''Whisper model '' @ quoted (actual_model_name req)
               @ '' is not available or failed to load.'') 503"
  using assms
  by (simp add: transcribe_audio_def Let_def case_prod_beta load_logger_result)

lemma transcribe_audio_no_part:
  assumes "fst (load_whisper_model env (actual_model_name req) st) = Some m"
      and "files req ''audio_file'' = None"
  shows "fst (transcribe_audio env req st) = jsonify_error ''No audio file part in the request'' 400"
  using assms
  by (simp add: transcribe_audio_def Let_def case_prod_beta load_logger_result)

lemma transcribe_audio_empty_filename:
  assumes "fst (load_whisper_model env (actual_model_name req) st) = Some m"
      and "files req ''audio_file'' = Some up" and "filename up = []"
  shows "fst (transcribe_audio env req st)
           = jsonify_error ''No selected audio file (empty filename)'' 400"
  using assms
  by (simp add: transcribe_audio_def Let_def case_prod_beta load_logger_result)

lemma transcribe_audio_try:
  assumes "fst (load_whisper_model env (actual_model_name req) st) = Some m"
      and "files req ''audio_file'' = Some up" and "filename up \<noteq> []"
  shows "\<exists>st4. fs st4 = fs st \<and>
           fst (transcribe_audio env req st)
             = fst (except_clause (fst (try_body env m (actual_model_name req) up st4))
                      (snd (snd (try_body env m (actual_model_name req) up st4))))"
proof -
  define st3 where "st3 = logger INFO (''Attempting to use model: '' @ quoted (actual_model_name req))
          (if requested_model_name req \<notin> ALLOWED_MODELS
                 then logger WARNING (''Requested model '' @ quoted (requested_model_name req)
                        @ '' is not in ALLOWED_MODELS. Falling back to default ''
                        @ quoted DEFAULT_MODEL @ ''.'')
                     (logger INFO (''Received transcription request, initially asking for model: ''
                  @ quoted (requested_model_name req)) st)
                 else logger INFO (''Received transcription request, initially asking for model: ''
                  @ quoted (requested_model_name req)) st)"
  define st4 where "st4 = snd (load_whisper_model env (actual_model_name req) st3)"
  have r: "fst (load_whisper_model env (actual_model_name req) st3) = Some m"
    using assms(1) by (simp add: st3_def load_logger_result)
  have "fs st4 = fs st"
    by (simp add: st4_def st3_def)
  moreover have "fst (transcribe_audio env req st)
             = fst (except_clause (fst (try_body env m (actual_model_name req) up st4))
                      (snd (snd (try_body env m (actual_model_name req) up st4))))"
    using r assms(2,3) unfolding transcribe_audio_def Let_def case_prod_beta st3_def[symmetric]
      st4_def[symmetric]
    by simp
  ultimately show ?thesis by blast
qed


lemma try_body_tempfile_raises:
  assumes "named_temporary_file env (fs st) (temp_suffix env up) = Inl e"
  shows "fst (try_body env m name up st) = Inl e"
  using assms by (simp add: try_body_def)

lemma try_body_save_raises:
  assumes "named_temporary_file env (fs st) (temp_suffix env up) = Inr p"
      and "file_save env up p = Some e"
  shows "fst (try_body env m name up st) = Inl e"
  using assms by (simp add: try_body_def Let_def)

lemma try_body_transcribe_raises:
  assumes "named_temporary_file env (fs st) (temp_suffix env up) = Inr p"
      and "file_save env up p = None"
      and "model_transcribe env m p = Inl e"
  shows "fst (try_body env m name up st) = Inl e"
  using assms by (simp add: try_body_def Let_def)

lemma except_clause_raised:
  "fst (except_clause (Inl e) st)
     = \<lparr>status = 500,
        body = [(''error'', ''An internal error occurred during transcription: '' @ exc_str e)]\<rparr>"
  by (simp add: except_clause_def jsonify_error_def)

text \<open>
  C7. When the selected model cannot be fetched (it is not cached and the engine raises),
  the handler answers with status 503 and the JSON body whose \<open>error\<close> field is
  "Whisper model '<selected>' is not available or failed to load.".
\<close>

theorem C7_load_failure_is_503:
  assumes "\<not> loads_ok env st (actual_model_name req)"
  shows "fst (transcribe_audio env req st)
           = \<lparr>status = 503,
              body = [(''error'', ''Whisper model '' @ quoted (actual_model_name req)
                         @ '' is not available or failed to load.'')]\<rparr>"
proof -
  from assms have "fst (load_whisper_model env (actual_model_name req) st) = None"
    by (simp add: load_result_iff)
  then show ?thesis
    by (simp add: transcribe_audio_unavailable jsonify_error_def)
qed

theorem C7_witness:
  "\<not> loads_ok (env_load_fails ''RuntimeError'' ''CUDA out of memory'') init_state
       (actual_model_name req_unknown_model)
   \<and> fst (transcribe_audio (env_load_fails ''RuntimeError'' ''CUDA out of memory'')
            req_unknown_model init_state)
       = \<lparr>status = 503,
          body = [(''error'', ''Whisper model 'base' is not available or failed to load.'')]\<rparr>"
proof -
  have n: "actual_model_name req_unknown_model = ''base''"
    by (simp add: actual_model_name_def requested_model_name_def req_unknown_model_def
          ALLOWED_MODELS_def DEFAULT_MODEL_def)
  have h: "\<not> loads_ok (env_load_fails ''RuntimeError'' ''CUDA out of memory'') init_state
       (actual_model_name req_unknown_model)"
    by (simp add: n loads_ok_def init_state_def env_load_fails_def env_ok_def)
  from C7_load_failure_is_503 [OF h] h show ?thesis
    by (simp add: n quoted_def)
qed

text \<open>
  C8. When the selected model is fetched successfully: a request without an \<open>audio_file\<close>
  part is answered with status 400 and the error "No audio file part in the request"; a
  request whose \<open>audio_file\<close> part has the empty filename is answered with status 400
  and the error "No selected audio file (empty filename)".
\<close>

theorem C8_missing_audio_is_400:
  assumes "loads_ok env st (actual_model_name req)"
  shows "(files req ''audio_file'' = None \<longrightarrow>
            fst (transcribe_audio env req st)
              = \<lparr>status = 400, body = [(''error'', ''No audio file part in the request'')]\<rparr>)
       \<and> (\<forall>up. files req ''audio_file'' = Some up \<and> filename up = [] \<longrightarrow>
            fst (transcribe_audio env req st)
              = \<lparr>status = 400,
                 body = [(''error'', ''No selected audio file (empty filename)'')]\<rparr>)"
proof -
  from assms obtain m where m: "fst (load_whisper_model env (actual_model_name req) st) = Some m"
    using load_result_iff [of env "actual_model_name req" st] by auto
  show ?thesis
    using transcribe_audio_no_part [OF m] transcribe_audio_empty_filename [OF m]
    by (simp add: jsonify_error_def)
qed

theorem C8_witness:
  "loads_ok env_ok init_state (actual_model_name req_no_audio)
   \<and> files req_no_audio ''audio_file'' = None
   \<and> fst (transcribe_audio env_ok req_no_audio init_state)
       = \<lparr>status = 400, body = [(''error'', ''No audio file part in the request'')]\<rparr>
   \<and> loads_ok env_ok init_state (actual_model_name req_empty_filename)
   \<and> files req_empty_filename ''audio_file'' = Some \<lparr>filename = [], content = []\<rparr>
   \<and> fst (transcribe_audio env_ok req_empty_filename init_state)
       = \<lparr>status = 400, body = [(''error'', ''No selected audio file (empty filename)'')]\<rparr>"
proof -
  have h1: "loads_ok env_ok init_state (actual_model_name req_no_audio)"
    by (simp add: loads_ok_def init_state_def env_ok_def)
  have h2: "loads_ok env_ok init_state (actual_model_name req_empty_filename)"
    by (simp add: loads_ok_def init_state_def env_ok_def)
  have f1: "files req_no_audio ''audio_file'' = None"
    by (simp add: req_no_audio_def)
  have f2: "files req_empty_filename ''audio_file'' = Some \<lparr>filename = [], content = []\<rparr>"
    by (simp add: req_empty_filename_def)
  from C8_missing_audio_is_400 [OF h1] C8_missing_audio_is_400 [OF h2] h1 h2 f1 f2
  show ?thesis
    by simp
qed

text \<open>
  C9. With the model fetched and an audio part with a non-empty filename: when creating
  the temporary file raises, or saving the upload into it raises, or the transcription
  call raises, the handler answers with status 500 and an error that ends with the text
  of that exception.
\<close>

theorem C9_persist_or_transcribe_failure_is_500:
  assumes "fst (load_whisper_model env (actual_model_name req) st) = Some m"
      and "files req ''audio_file'' = Some up"
      and "filename up \<noteq> []"
      and "named_temporary_file env (fs st) (temp_suffix env up) = Inl e
           \<or> (\<exists>p. named_temporary_file env (fs st) (temp_suffix env up) = Inr p
                  \<and> (file_save env up p = Some e
                      \<or> file_save env up p = None \<and> model_transcribe env m p = Inl e))"
  shows "fst (transcribe_audio env req st)
           = \<lparr>status = 500,
              body = [(''error'', ''An internal error occurred during transcription: ''
                         @ exc_str e)]\<rparr>"
proof -
  from transcribe_audio_try [OF assms(1-3)] obtain st4 where
    st4: "fs st4 = fs st"
    and resp: "fst (transcribe_audio env req st)
             = fst (except_clause (fst (try_body env m (actual_model_name req) up st4))
                      (snd (snd (try_body env m (actual_model_name req) up st4))))"
    by blast
  have "fst (try_body env m (actual_model_name req) up st4) = Inl e"
    using assms(4) st4
    by (auto intro: try_body_tempfile_raises try_body_save_raises try_body_transcribe_raises)
  with resp show ?thesis
    by (simp add: except_clause_raised)
qed


lemma req_tiny_wav_name: "actual_model_name req_tiny_wav = ''tiny''"
  by (simp add: actual_model_name_def requested_model_name_def req_tiny_wav_def
        ALLOWED_MODELS_def)

lemma req_tiny_wav_file:
  "files req_tiny_wav ''audio_file'' = Some \<lparr>filename = ''a.wav'', content = ''RIFF''\<rparr>"
  by (simp add: req_tiny_wav_def)

lemma env_ok_suffix: "temp_suffix env_ok \<lparr>filename = ''a.wav'', content = ''RIFF''\<rparr> = ''.wav''"
  by (simp add: temp_suffix_def env_ok_def)

theorem C9_witness:
  "fst (transcribe_audio env_tempfile_fails req_tiny_wav init_state)
     = \<lparr>status = 500,
        body = [(''error'', ''An internal error occurred during transcription: [Errno 30] Read-only file system'')]\<rparr>
   \<and> fst (transcribe_audio env_save_fails req_tiny_wav init_state)
     = \<lparr>status = 500,
        body = [(''error'', ''An internal error occurred during transcription: [Errno 28] No space left on device'')]\<rparr>
   \<and> fst (transcribe_audio env_transcribe_fails req_tiny_wav init_state)
     = \<lparr>status = 500,
        body = [(''error'', ''An internal error occurred during transcription: Failed to load audio'')]\<rparr>"
proof -
  let ?up = "\<lparr>filename = ''a.wav'', content = ''RIFF''\<rparr>"
  have a: "fst (load_whisper_model env_tempfile_fails (actual_model_name req_tiny_wav) init_state) = Some 0"
    by (simp add: req_tiny_wav_name load_whisper_model_def init_state_def Let_def
          env_tempfile_fails_def env_ok_def)
  have b: "fst (load_whisper_model env_save_fails (actual_model_name req_tiny_wav) init_state) = Some 0"
    by (simp add: req_tiny_wav_name load_whisper_model_def init_state_def Let_def
          env_save_fails_def env_ok_def)
  have c: "fst (load_whisper_model env_transcribe_fails (actual_model_name req_tiny_wav) init_state) = Some 0"
    by (simp add: req_tiny_wav_name load_whisper_model_def init_state_def Let_def
          env_transcribe_fails_def env_ok_def)
  have n: "filename ?up \<noteq> []"
    by simp
  have ha: "named_temporary_file env_tempfile_fails (fs (init_state :: nat state))
              (temp_suffix env_tempfile_fails ?up)
            = Inl (Exception ''OSError'' ''[Errno 30] Read-only file system'')
          \<or> (\<exists>p. named_temporary_file env_tempfile_fails (fs (init_state :: nat state))
                    (temp_suffix env_tempfile_fails ?up) = Inr p
                \<and> (file_save env_tempfile_fails ?up p
                      = Some (Exception ''OSError'' ''[Errno 30] Read-only file system'')
                    \<or> file_save env_tempfile_fails ?up p = None
                      \<and> model_transcribe env_tempfile_fails 0 p
                          = Inl (Exception ''OSError'' ''[Errno 30] Read-only file system'')))"
    by (simp add: env_tempfile_fails_def env_ok_def)
  have hb: "named_temporary_file env_save_fails (fs (init_state :: nat state))
              (temp_suffix env_save_fails ?up)
            = Inl (Exception ''OSError'' ''[Errno 28] No space left on device'')
          \<or> (\<exists>p. named_temporary_file env_save_fails (fs (init_state :: nat state))
                    (temp_suffix env_save_fails ?up) = Inr p
                \<and> (file_save env_save_fails ?up p
                      = Some (Exception ''OSError'' ''[Errno 28] No space left on device'')
                    \<or> file_save env_save_fails ?up p = None
                      \<and> model_transcribe env_save_fails 0 p
                          = Inl (Exception ''OSError'' ''[Errno 28] No space left on device'')))"
    by (simp add: env_save_fails_def env_ok_def)
  have hc: "named_temporary_file env_transcribe_fails (fs (init_state :: nat state))
              (temp_suffix env_transcribe_fails ?up)
            = Inl (Exception ''RuntimeError'' ''Failed to load audio'')
          \<or> (\<exists>p. named_temporary_file env_transcribe_fails (fs (init_state :: nat state))
                    (temp_suffix env_transcribe_fails ?up) = Inr p
                \<and> (file_save env_transcribe_fails ?up p
                      = Some (Exception ''RuntimeError'' ''Failed to load audio'')
                    \<or> file_save env_transcribe_fails ?up p = None
                      \<and> model_transcribe env_transcribe_fails 0 p
                          = Inl (Exception ''RuntimeError'' ''Failed to load audio'')))"
    by (simp add: env_transcribe_fails_def env_ok_def)
  from C9_persist_or_transcribe_failure_is_500 [OF a req_tiny_wav_file n ha]
       C9_persist_or_transcribe_failure_is_500 [OF b req_tiny_wav_file n hb]
       C9_persist_or_transcribe_failure_is_500 [OF c req_tiny_wav_file n hc]
  show ?thesis
    by simp
qed

lemma transcribe_audio_registry_calls:
  "registry_calls (snd (transcribe_audio env req st)) = registry_calls st @ [actual_model_name req]"
  by (simp add: transcribe_audio_def Let_def case_prod_beta try_body_fields
        except_clause_fields finally_clause_fields split: option.splits)

lemma transcribe_audio_400_loaded:
  assumes "status (fst (transcribe_audio env req st)) = 400"
  shows "loads_ok env st (actual_model_name req)"
proof (rule ccontr)
  assume "\<not> loads_ok env st (actual_model_name req)"
  then have "fst (load_whisper_model env (actual_model_name req) st) = None"
    by (simp add: load_result_iff)
  then have "status (fst (transcribe_audio env req st)) = 503"
    by (simp add: transcribe_audio_unavailable jsonify_error_def)
  with assms show False
    by simp
qed

text \<open>
  C10. The model is fetched before the upload is looked at: whenever the selected model
  cannot be fetched the answer is 503, whatever the request holds (also without an audio
  part or with an empty filename); a 400 answer implies that the fetch succeeded; and
  every request invokes the engine exactly as a fetch of the selected identifier does.
\<close>

theorem C10_model_is_loaded_before_validation:
  "(\<not> loads_ok env st (actual_model_name req) \<longrightarrow>
       status (fst (transcribe_audio env req st)) = 503)
   \<and> (status (fst (transcribe_audio env req st)) = 400 \<longrightarrow>
       loads_ok env st (actual_model_name req))
   \<and> load_calls (snd (transcribe_audio env req st))
       = load_calls (snd (load_whisper_model env (actual_model_name req) st))"
proof (intro conjI impI)
  assume "\<not> loads_ok env st (actual_model_name req)"
  then have "fst (load_whisper_model env (actual_model_name req) st) = None"
    by (simp add: load_result_iff)
  then show "status (fst (transcribe_audio env req st)) = 503"
    by (simp add: transcribe_audio_unavailable jsonify_error_def)
next
  assume "status (fst (transcribe_audio env req st)) = 400"
  then show "loads_ok env st (actual_model_name req)"
    by (rule transcribe_audio_400_loaded)
next
  show "load_calls (snd (transcribe_audio env req st))
       = load_calls (snd (load_whisper_model env (actual_model_name req) st))"
    by (rule transcribe_audio_cache(2))
qed

theorem C10_witness:
  "\<not> loads_ok (env_load_fails ''RuntimeError'' ''CUDA out of memory'') init_state
        (actual_model_name req_no_audio)
   \<and> status (fst (transcribe_audio (env_load_fails ''RuntimeError'' ''CUDA out of memory'')
        req_no_audio init_state)) = 503
   \<and> load_calls (snd (transcribe_audio (env_load_fails ''RuntimeError'' ''CUDA out of memory'')
        req_no_audio init_state)) = [''base'']
   \<and> \<not> loads_ok (env_load_fails ''RuntimeError'' ''CUDA out of memory'') init_state
        (actual_model_name req_empty_filename)
   \<and> status (fst (transcribe_audio (env_load_fails ''RuntimeError'' ''CUDA out of memory'')
        req_empty_filename init_state)) = 503
   \<and> status (fst (transcribe_audio env_ok req_no_audio init_state)) = 400
   \<and> loads_ok env_ok init_state (actual_model_name req_no_audio)"
proof -
  let ?down = "env_load_fails ''RuntimeError'' ''CUDA out of memory''"
  have n1: "actual_model_name req_no_audio = ''base''"
    by (simp add: actual_model_name_def requested_model_name_def req_no_audio_def
          ALLOWED_MODELS_def DEFAULT_MODEL_def)
  have n2: "actual_model_name req_empty_filename = ''base''"
    by (simp add: actual_model_name_def requested_model_name_def req_empty_filename_def
          ALLOWED_MODELS_def DEFAULT_MODEL_def)
  have h1: "\<not> loads_ok ?down init_state (actual_model_name req_no_audio)"
    by (simp add: n1 loads_ok_def init_state_def env_load_fails_def env_ok_def)
  have h2: "\<not> loads_ok ?down init_state (actual_model_name req_empty_filename)"
    by (simp add: n2 loads_ok_def init_state_def env_load_fails_def env_ok_def)
  have lc: "load_calls (snd (load_whisper_model ?down ''base'' init_state)) = [''base'']"
    by (simp add: load_whisper_model_def Let_def init_state_def env_load_fails_def env_ok_def)
  have s400: "status (fst (transcribe_audio env_ok req_no_audio init_state)) = 400"
    by (simp add: transcribe_audio_def Let_def case_prod_beta n1 load_whisper_model_def
          init_state_def env_ok_def req_no_audio_def jsonify_error_def logger_def)
  from C10_model_is_loaded_before_validation [of ?down init_state req_no_audio]
       C10_model_is_loaded_before_validation [of ?down init_state req_empty_filename]
       C10_model_is_loaded_before_validation [of env_ok init_state req_no_audio]
       h1 h2 lc s400
  show ?thesis
    by (simp add: n1)
qed


lemma try_body_response:
  assumes "fst (try_body env m name up st) = Inr resp"
  shows "\<exists>text. resp = \<lparr>status = 200, body = [(''text'', text), (''model_used'', name)]\<rparr>"
  using assms by (auto simp: try_body_def Let_def split: sum.splits option.splits)

lemma transcribe_audio_200:
  assumes "status (fst (transcribe_audio env req st)) = 200"
  shows "\<exists>text. body (fst (transcribe_audio env req st))
                  = [(''text'', text), (''model_used'', actual_model_name req)]"
proof (cases "fst (load_whisper_model env (actual_model_name req) st)")
  case None
  then have "status (fst (transcribe_audio env req st)) = 503"
    by (simp add: transcribe_audio_unavailable jsonify_error_def)
  with assms show ?thesis by simp
next
  case (Some m)
  show ?thesis
  proof (cases "files req ''audio_file''")
    case None
    with Some have "status (fst (transcribe_audio env req st)) = 400"
      by (simp add: transcribe_audio_no_part jsonify_error_def)
    with assms show ?thesis by simp
  next
    case up: (Some up)
    show ?thesis
    proof (cases "filename up = []")
      case True
      with Some up have "status (fst (transcribe_audio env req st)) = 400"
        by (simp add: transcribe_audio_empty_filename jsonify_error_def)
      with assms show ?thesis by simp
    next
      case False
      from transcribe_audio_try [OF Some up False] obtain st4 where
        resp: "fst (transcribe_audio env req st)
             = fst (except_clause (fst (try_body env m (actual_model_name req) up st4))
                      (snd (snd (try_body env m (actual_model_name req) up st4))))"
        by blast
      show ?thesis
      proof (cases "fst (try_body env m (actual_model_name req) up st4)")
        case (Inl e)
        with resp have "status (fst (transcribe_audio env req st)) = 500"
          by (simp add: except_clause_raised)
        with assms show ?thesis by simp
      next
        case (Inr r)
        from try_body_response [OF Inr] obtain t where
          "r = \<lparr>status = 200, body = [(''text'', t), (''model_used'', actual_model_name req)]\<rparr>"
          by blast
        with resp Inr show ?thesis
          by (simp add: except_clause_def)
      qed
    qed
  qed
qed

lemma actual_model_name_allowed: "actual_model_name req \<in> ALLOWED_MODELS"
  by (simp add: actual_model_name_def) (simp add: DEFAULT_MODEL_def ALLOWED_MODELS_def)

lemma actual_model_name_cases:
  "actual_model_name req
     = (case form req ''model_name'' of
          None \<Rightarrow> DEFAULT_MODEL
        | Some supplied \<Rightarrow> if supplied \<in> ALLOWED_MODELS then supplied else DEFAULT_MODEL)"
proof (cases "form req ''model_name''")
  case None
  have "DEFAULT_MODEL \<in> ALLOWED_MODELS"
    by (simp add: DEFAULT_MODEL_def ALLOWED_MODELS_def)
  with None show ?thesis
    by (simp add: actual_model_name_def requested_model_name_def)
next
  case (Some supplied)
  then show ?thesis
    by (simp add: actual_model_name_def requested_model_name_def)
qed

lemma try_body_outcome_fs:
  assumes "fs st = fs st'"
  shows "fst (try_body env m name up st) = fst (try_body env m name up st')"
  using assms by (simp add: try_body_def Let_def split: sum.splits option.splits)

lemma except_clause_response:
  "fst (except_clause outcome st) = fst (except_clause outcome st')"
  by (simp add: except_clause_def split: sum.splits)

text \<open>The response of the handler, from the fetch of the selected identifier on.\<close>

lemma transcribe_audio_response:
  "fst (transcribe_audio env req st)
     = (case fst (load_whisper_model env (actual_model_name req) st) of
          None \<Rightarrow> jsonify_error (''Whisper model '' @ quoted (actual_model_name req)
                    @ '' is not available or failed to load.'') 503
        | Some m \<Rightarrow>
            (case files req ''audio_file'' of
               None \<Rightarrow> jsonify_error ''No audio file part in the request'' 400
             | Some up \<Rightarrow>
                 if filename up = [] then
                   jsonify_error ''No selected audio file (empty filename)'' 400
                 else fst (except_clause (fst (try_body env m (actual_model_name req) up st)) st)))"
proof (cases "fst (load_whisper_model env (actual_model_name req) st)")
  case None
  then show ?thesis
    by (simp add: transcribe_audio_unavailable)
next
  case (Some m)
  show ?thesis
  proof (cases "files req ''audio_file''")
    case None
    with Some show ?thesis
      by (simp add: transcribe_audio_no_part)
  next
    case up: (Some up)
    show ?thesis
    proof (cases "filename up = []")
      case True
      with Some up show ?thesis
        by (simp add: transcribe_audio_empty_filename)
    next
      case False
      from transcribe_audio_try [OF Some up False] obtain st4 where
        st4: "fs st4 = fs st"
        and resp: "fst (transcribe_audio env req st)
             = fst (except_clause (fst (try_body env m (actual_model_name req) up st4))
                      (snd (snd (try_body env m (actual_model_name req) up st4))))"
        by blast
      have "fst (try_body env m (actual_model_name req) up st4)
              = fst (try_body env m (actual_model_name req) up st)"
        using st4 by (rule try_body_outcome_fs)
      with resp have "fst (transcribe_audio env req st)
             = fst (except_clause (fst (try_body env m (actual_model_name req) up st)) st)"
        using except_clause_response by metis
      with Some up False show ?thesis
        by simp
    qed
  qed
qed

lemma actual_model_name_normalised:
  "actual_model_name (req\<lparr>form := (form req)(''model_name'' \<mapsto> actual_model_name req)\<rparr>)
     = actual_model_name req"
  using actual_model_name_allowed [of req]
  by (simp add: actual_model_name_def requested_model_name_def)

lemma transcribe_audio_fallback:
  "fst (transcribe_audio env req st)
     = fst (transcribe_audio env
              (req\<lparr>form := (form req)(''model_name'' \<mapsto> actual_model_name req)\<rparr>) st)"
  by (simp add: transcribe_audio_response actual_model_name_normalised split: option.splits)

lemma try_body_ok:
  assumes "named_temporary_file env (fs st) (temp_suffix env up) = Inr p"
      and "file_save env up p = None"
      and "model_transcribe env m p = Inr result"
      and "result ''text'' = Some t"
  shows "fst (try_body env m name up st)
           = Inr \<lparr>status = 200, body = [(''text'', t), (''model_used'', name)]\<rparr>"
  using assms by (simp add: try_body_def Let_def)

lemma try_body_ok_only:
  assumes "fst (try_body env m name up st) = Inr resp"
  shows "\<exists>p result t. named_temporary_file env (fs st) (temp_suffix env up) = Inr p
           \<and> file_save env up p = None
           \<and> model_transcribe env m p = Inr result
           \<and> result ''text'' = Some t
           \<and> resp = \<lparr>status = 200, body = [(''text'', t), (''model_used'', name)]\<rparr>"
  using assms by (auto simp: try_body_def Let_def split: sum.splits option.splits)

lemma transcribe_audio_served:
  assumes "served env req st t"
  shows "fst (transcribe_audio env req st)
           = \<lparr>status = 200, body = [(''text'', t), (''model_used'', actual_model_name req)]\<rparr>"
proof -
  from assms obtain m up p result where
    m: "fst (load_whisper_model env (actual_model_name req) st) = Some m"
    and up: "files req ''audio_file'' = Some up" "filename up \<noteq> []"
    and ok: "named_temporary_file env (fs st) (temp_suffix env up) = Inr p"
      "file_save env up p = None" "model_transcribe env m p = Inr result"
      "result ''text'' = Some t"
    unfolding served_def by blast
  from ok have "fst (try_body env m (actual_model_name req) up st)
           = Inr \<lparr>status = 200, body = [(''text'', t), (''model_used'', actual_model_name req)]\<rparr>"
    by (rule try_body_ok)
  with m up show ?thesis
    by (simp add: transcribe_audio_response except_clause_def)
qed

lemma transcribe_audio_200_served:
  assumes "status (fst (transcribe_audio env req st)) = 200"
  shows "\<exists>t. served env req st t"
proof (cases "fst (load_whisper_model env (actual_model_name req) st)")
  case None
  with assms show ?thesis
    by (simp add: transcribe_audio_response jsonify_error_def)
next
  case (Some m)
  show ?thesis
  proof (cases "files req ''audio_file''")
    case None
    with Some assms show ?thesis
      by (simp add: transcribe_audio_response jsonify_error_def)
  next
    case up: (Some up)
    show ?thesis
    proof (cases "filename up = []")
      case True
      with Some up assms show ?thesis
        by (simp add: transcribe_audio_response jsonify_error_def)
    next
      case False
      with Some up have resp: "fst (transcribe_audio env req st)
             = fst (except_clause (fst (try_body env m (actual_model_name req) up st)) st)"
        by (simp add: transcribe_audio_response)
      show ?thesis
      proof (cases "fst (try_body env m (actual_model_name req) up st)")
        case (Inl e)
        with resp assms show ?thesis
          by (simp add: except_clause_raised)
      next
        case (Inr r)
        from try_body_ok_only [OF Inr] Some up False show ?thesis
          unfolding served_def by blast
      qed
    qed
  qed
qed

text \<open>
  C4. The selected identifier is the default when \<open>model_name\<close> is absent, the default
  when the supplied name is not in the allow-list, and the supplied name when it is in the
  allow-list; it is always a member of the allow-list. The handler fetches exactly the
  selected identifier from the registry: the cache and the invocations of the engine
  after a request are those of \<open>load_whisper_model\<close> on the selected identifier. The
  response to a request is the response to the same request with the selected identifier
  as its \<open>model_name\<close>, so a name outside the allow-list is served as the default is and
  is not rejected. A request is answered 200 exactly when it is served to the end by the
  instance fetched for the selected identifier, and then \<open>model_used\<close> is the selected
  identifier.
\<close>

theorem C4_selected_model:
  "actual_model_name req
     = (case form req ''model_name'' of
          None \<Rightarrow> DEFAULT_MODEL
        | Some supplied \<Rightarrow> if supplied \<in> ALLOWED_MODELS then supplied else DEFAULT_MODEL)
   \<and> actual_model_name req \<in> ALLOWED_MODELS
   \<and> registry_calls (snd (transcribe_audio env req st))
       = registry_calls st @ [actual_model_name req]
   \<and> loaded_models (snd (transcribe_audio env req st))
       = loaded_models (snd (load_whisper_model env (actual_model_name req) st))
   \<and> load_calls (snd (transcribe_audio env req st))
       = load_calls (snd (load_whisper_model env (actual_model_name req) st))
   \<and> fst (transcribe_audio env req st)
       = fst (transcribe_audio env
                (req\<lparr>form := (form req)(''model_name'' \<mapsto> actual_model_name req)\<rparr>) st)
   \<and> (\<forall>t. served env req st t \<longrightarrow>
          fst (transcribe_audio env req st)
            = \<lparr>status = 200,
               body = [(''text'', t), (''model_used'', actual_model_name req)]\<rparr>)
   \<and> (status (fst (transcribe_audio env req st)) = 200 \<longrightarrow>
        (\<exists>t. served env req st t
              \<and> body (fst (transcribe_audio env req st))
                  = [(''text'', t), (''model_used'', actual_model_name req)]))"
proof -
  have "status (fst (transcribe_audio env req st)) = 200 \<longrightarrow>
        (\<exists>t. served env req st t
              \<and> body (fst (transcribe_audio env req st))
                  = [(''text'', t), (''model_used'', actual_model_name req)])"
  proof
    assume "status (fst (transcribe_audio env req st)) = 200"
    then obtain t where t: "served env req st t"
      using transcribe_audio_200_served by blast
    from transcribe_audio_served [OF t] t
    show "\<exists>t. served env req st t
              \<and> body (fst (transcribe_audio env req st))
                  = [(''text'', t), (''model_used'', actual_model_name req)]"
      by auto
  qed
  with actual_model_name_cases [of req] actual_model_name_allowed [of req]
    transcribe_audio_registry_calls [of env req st] transcribe_audio_cache [of env req st]
    transcribe_audio_fallback [of env req st] transcribe_audio_served [of env req st]
  show ?thesis
    by blast
qed

lemmas model_defs = transcribe_audio_def load_whisper_model_def try_body_def except_clause_def
  finally_clause_def temp_suffix_def logger_def jsonify_error_def quoted_def
  actual_model_name_def requested_model_name_def ALLOWED_MODELS_def DEFAULT_MODEL_def
  init_state_def Let_def

theorem C4_witness:
  "form req_unknown_model ''model_name'' = Some ''not-a-real-model''
   \<and> ''not-a-real-model'' \<notin> ALLOWED_MODELS
   \<and> actual_model_name req_unknown_model = ''base''
   \<and> served env_ok req_unknown_model init_state ''hello world''
   \<and> fst (transcribe_audio env_ok req_unknown_model init_state)
       = \<lparr>status = 200, body = [(''text'', ''hello world''), (''model_used'', ''base'')]\<rparr>
   \<and> fst (transcribe_audio env_ok
            (req_unknown_model\<lparr>form := (form req_unknown_model)(''model_name'' \<mapsto> ''base'')\<rparr>)
            init_state)
       = \<lparr>status = 200, body = [(''text'', ''hello world''), (''model_used'', ''base'')]\<rparr>
   \<and> registry_calls (snd (transcribe_audio env_ok req_unknown_model init_state)) = [''base'']
   \<and> load_calls (snd (transcribe_audio env_ok req_unknown_model init_state)) = [''base'']
   \<and> loaded_models (snd (transcribe_audio env_ok req_unknown_model init_state)) ''base''
       = Some 0"
proof -
  have f: "form req_unknown_model ''model_name'' = Some ''not-a-real-model''"
    by (simp add: req_unknown_model_def)
  have n: "''not-a-real-model'' \<notin> ALLOWED_MODELS"
    by (simp add: ALLOWED_MODELS_def)
  have i: "registry_calls (init_state :: nat state) = []"
    by (simp add: init_state_def)
  let ?req = req_unknown_model
  let ?resp = "fst (transcribe_audio env_ok ?req init_state)"
  let ?after = "snd (transcribe_audio env_ok ?req init_state)"
  note c4 = C4_selected_model [of ?req env_ok init_state]
  from c4 have "actual_model_name ?req
     = (case form ?req ''model_name'' of
          None \<Rightarrow> DEFAULT_MODEL
        | Some supplied \<Rightarrow> if supplied \<in> ALLOWED_MODELS then supplied else DEFAULT_MODEL)"
    by (elim conjE)
  then have name: "actual_model_name ?req = ''base''"
    by (simp add: f n DEFAULT_MODEL_def)
  from c4 have c_reg: "registry_calls ?after
                  = registry_calls (init_state :: nat state) @ [actual_model_name ?req]"
    and c_lm: "loaded_models ?after
                 = loaded_models (snd (load_whisper_model env_ok (actual_model_name ?req) init_state))"
    and c_lc: "load_calls ?after
                 = load_calls (snd (load_whisper_model env_ok (actual_model_name ?req) init_state))"
    and c_eq: "?resp = fst (transcribe_audio env_ok
                (?req\<lparr>form := (form ?req)(''model_name'' \<mapsto> actual_model_name ?req)\<rparr>)
                init_state)"
    and c_served: "\<forall>t. served env_ok ?req init_state t \<longrightarrow>
          ?resp = \<lparr>status = 200,
                    body = [(''text'', t), (''model_used'', actual_model_name ?req)]\<rparr>"
    by blast+
  have fetch: "load_whisper_model env_ok ''base'' init_state
     = (Some 0, \<lparr>loaded_models = [''base'' \<mapsto> 0], load_calls = [''base''],
                  registry_calls = [''base''], fs = {},
                  logged = [(INFO, ''Attempting to load Whisper model: base...''),
                            (INFO, ''Whisper model '' @ quoted ''base''
                               @ '' loaded successfully in 0.50 seconds.'')]\<rparr>)"
    by (simp add: load_whisper_model_def init_state_def env_ok_def Let_def logger_def)
  have s: "served env_ok req_unknown_model init_state ''hello world''"
    unfolding served_def name
  proof (intro exI conjI)
    show "fst (load_whisper_model env_ok ''base'' init_state) = Some 0"
      by (simp add: fetch)
    show "files req_unknown_model ''audio_file''
            = Some \<lparr>filename = ''a.wav'', content = ''RIFF''\<rparr>"
      by (simp add: req_unknown_model_def)
    show "filename \<lparr>filename = ''a.wav'', content = ''RIFF''\<rparr> \<noteq> []"
      by simp
    show "named_temporary_file env_ok (fs (init_state :: nat state))
            (temp_suffix env_ok \<lparr>filename = ''a.wav'', content = ''RIFF''\<rparr>)
          = Inr ''/tmp/tmpq3x.wav''"
      by (simp add: env_ok_def temp_suffix_def)
    show "file_save env_ok \<lparr>filename = ''a.wav'', content = ''RIFF''\<rparr> ''/tmp/tmpq3x.wav''
            = None"
      by (simp add: env_ok_def)
    show "model_transcribe env_ok 0 ''/tmp/tmpq3x.wav'' = Inr [''text'' \<mapsto> ''hello world'']"
      by (simp add: env_ok_def)
    show "[''text'' \<mapsto> ''hello world''] ''text'' = Some ''hello world''"
      by simp
  qed
  from c_served s have r: "?resp
       = \<lparr>status = 200, body = [(''text'', ''hello world''), (''model_used'', ''base'')]\<rparr>"
    unfolding name by blast
  from c_eq r have r': "fst (transcribe_audio env_ok
            (?req\<lparr>form := (form ?req)(''model_name'' \<mapsto> ''base'')\<rparr>) init_state)
       = \<lparr>status = 200, body = [(''text'', ''hello world''), (''model_used'', ''base'')]\<rparr>"
    unfolding name by simp
  from c_reg have "registry_calls ?after = [''base'']"
    unfolding name by (simp add: i)
  moreover from c_lc have "load_calls ?after = [''base'']"
    unfolding name by (simp add: fetch)
  moreover from c_lm have "loaded_models ?after ''base'' = Some 0"
    unfolding name by (simp add: fetch)
  ultimately show ?thesis
    using f n name s r r' by simp
qed

text \<open>
  C6. The claim fails on the code when saving the upload raises. The temporary file has
  been created, but \<open>temp_audio_path\<close> is assigned only after \<open>audio_file.save\<close>, so the
  \<open>finally\<close> clause removes nothing: the answer is 500 and the file stays in the file
  system. On the sibling paths (transcription raises, or everything succeeds) the file
  is gone afterwards.
\<close>

theorem C6_temp_file_left_when_save_raises:
  "fst (transcribe_audio env_save_fails req_tiny_wav init_state)
     = \<lparr>status = 500,
        body = [(''error'', ''An internal error occurred during transcription: [Errno 28] No space left on device'')]\<rparr>
   \<and> fs (snd (transcribe_audio env_save_fails req_tiny_wav init_state)) = {''/tmp/tmpq3x.wav''}
   \<and> fs (snd (transcribe_audio env_transcribe_fails req_tiny_wav init_state)) = {}
   \<and> fs (snd (transcribe_audio env_ok req_tiny_wav init_state)) = {}"
  by (simp add: model_defs env_ok_def env_save_fails_def env_transcribe_fails_def req_tiny_wav_def)

section \<open>Concurrent callers\<close>

lemma thread_stepE [consumes 1, case_names acquire hit miss load_ok load_raises insert failed release]:
  assumes "thread_step env i c = Some c'"
  obtains
    (acquire) n where "i < length (threads c)" "threads c ! i = (n, Start)" "\<not> lock_held c"
      "c' = c\<lparr>threads := (threads c)[i := (n, Locked)], lock_held := True,
               shared := (shared c)\<lparr>registry_calls := registry_calls (shared c) @ [n]\<rparr>\<rparr>"
  | (hit) n cached where "i < length (threads c)" "threads c ! i = (n, Locked)"
      "loaded_models (shared c) n = Some cached"
      "c' = c\<lparr>threads := (threads c)[i := (n, Leaving (Some cached))],
               shared := logger INFO (''Using cached model: '' @ n) (shared c)\<rparr>"
  | (miss) n where "i < length (threads c)" "threads c ! i = (n, Locked)"
      "loaded_models (shared c) n = None"
      "c' = c\<lparr>threads := (threads c)[i := (n, Loading)],
               shared := logger INFO (''Attempting to load Whisper model: '' @ n @ ''...'')
                           (shared c)\<rparr>"
  | (load_ok) n m where "i < length (threads c)" "threads c ! i = (n, Loading)"
      "whisper_load_model env (load_calls (shared c)) n = Inr m"
      "c' = c\<lparr>threads := (threads c)[i := (n, Loaded m)],
               shared := (shared c)\<lparr>load_calls := load_calls (shared c) @ [n]\<rparr>\<rparr>"
  | (load_raises) n e where "i < length (threads c)" "threads c ! i = (n, Loading)"
      "whisper_load_model env (load_calls (shared c)) n = Inl e"
      "c' = c\<lparr>threads := (threads c)[i := (n, Failed e)],
               shared := (shared c)\<lparr>load_calls := load_calls (shared c) @ [n]\<rparr>\<rparr>"
  | (insert) n m where "i < length (threads c)" "threads c ! i = (n, Loaded m)"
      "c' = c\<lparr>threads := (threads c)[i := (n, Leaving (Some m))],
               shared := (logger INFO (''Whisper model '' @ quoted n
                             @ '' loaded successfully in '' @ elapsed env @ '' seconds.'')
                           (shared c))\<lparr>loaded_models := (loaded_models (shared c))(n \<mapsto> m)\<rparr>\<rparr>"
  | (failed) n e where "i < length (threads c)" "threads c ! i = (n, Failed e)"
      "c' = c\<lparr>threads := (threads c)[i := (n, Leaving None)],
               shared := logger ERROR (''Failed to load Whisper model ''
                                     @ quoted n @ '': '' @ exc_str e) (shared c)\<rparr>"
  | (release) n r where "i < length (threads c)" "threads c ! i = (n, Leaving r)"
      "c' = c\<lparr>threads := (threads c)[i := (n, Done r)], lock_held := False\<rparr>"
proof -
  from assms have len: "i < length (threads c)"
    by (simp add: thread_step_def split: if_splits)
  obtain n p where t: "threads c ! i = (n, p)"
    by (cases "threads c ! i")
  show thesis
  proof (cases p)
    case Start
    with assms len t show ?thesis
      by (intro acquire[of n]) (auto simp: thread_step_def Let_def split: if_splits)
  next
    case Locked
    show ?thesis
    proof (cases "loaded_models (shared c) n")
      case None
      with assms len t Locked show ?thesis
        by (intro miss[of n]) (auto simp: thread_step_def Let_def)
    next
      case (Some cached)
      with assms len t Locked show ?thesis
        by (intro hit[of n cached]) (auto simp: thread_step_def Let_def)
    qed
  next
    case Loading
    show ?thesis
    proof (cases "whisper_load_model env (load_calls (shared c)) n")
      case (Inl e)
      with assms len t Loading show ?thesis
        by (intro load_raises[of n e]) (auto simp: thread_step_def Let_def)
    next
      case (Inr m)
      with assms len t Loading show ?thesis
        by (intro load_ok[of n m]) (auto simp: thread_step_def Let_def)
    qed
  next
    case (Loaded m)
    with assms len t show ?thesis
      by (intro insert[of n m]) (auto simp: thread_step_def Let_def)
  next
    case (Failed e)
    with assms len t show ?thesis
      by (intro failed[of n e]) (auto simp: thread_step_def Let_def)
  next
    case (Leaving r)
    with assms len t show ?thesis
      by (intro release[of n r]) (auto simp: thread_step_def Let_def)
  next
    case (Done r)
    with assms len t show ?thesis
      by (simp add: thread_step_def Let_def)
  qed
qed


lemma in_block_update_same:
  assumes "i < length ts" and "in_block (snd (ts ! i)) = in_block p'" and "j < length ts"
  shows "in_block (snd (ts[i := (n, p')] ! j)) = in_block (snd (ts ! j))"
  using assms by (cases "i = j") simp_all

lemma guard_ok_inside:
  assumes "guard_ok c" and "i < length (threads c)"
      and "in_block (snd (threads c ! i))" and "in_block p'"
  shows "guard_ok (c\<lparr>threads := (threads c)[i := (n, p')], shared := s\<rparr>)"
proof -
  have "\<forall>j < length (threads c).
          in_block (snd ((threads c)[i := (n, p')] ! j)) = in_block (snd (threads c ! j))"
    using assms(2-4) by (simp add: in_block_update_same)
  with assms(1) show ?thesis
    by (auto simp: guard_ok_def)
qed

lemma guard_ok_acquire:
  assumes "guard_ok c" and "i < length (threads c)" and "\<not> lock_held c" and "in_block p'"
  shows "guard_ok (c\<lparr>threads := (threads c)[i := (n, p')], lock_held := True, shared := s\<rparr>)"
proof -
  from assms(1,3) have none: "\<forall>j < length (threads c). \<not> in_block (snd (threads c ! j))"
    by (auto simp: guard_ok_def)
  have "\<forall>j < length (threads c).
          in_block (snd ((threads c)[i := (n, p')] ! j)) = (j = i)"
    using none assms(2,4) by (simp add: nth_list_update)
  with assms(2) show ?thesis
    by (auto simp: guard_ok_def)
qed

lemma guard_ok_release:
  assumes "guard_ok c" and "i < length (threads c)" and "in_block (snd (threads c ! i))"
  shows "guard_ok (c\<lparr>threads := (threads c)[i := (n, Done r)], lock_held := False\<rparr>)"
proof -
  from assms have only: "\<forall>j < length (threads c). in_block (snd (threads c ! j)) \<longrightarrow> j = i"
    by (auto simp: guard_ok_def)
  have "\<forall>j < length (threads c). \<not> in_block (snd ((threads c)[i := (n, Done r)] ! j))"
    using only assms(2) by (auto simp: nth_list_update)
  then show ?thesis
    by (simp add: guard_ok_def)
qed

lemma guard_ok_step:
  assumes "guard_ok c" and "thread_step env i c = Some c'"
  shows "guard_ok c'"
  using assms(2)
proof (cases rule: thread_stepE)
  case (acquire n)
  with assms(1) show ?thesis by (simp add: guard_ok_acquire)
next
  case (hit n cached)
  with assms(1) show ?thesis by (simp add: guard_ok_inside)
next
  case (miss n)
  with assms(1) show ?thesis by (simp add: guard_ok_inside)
next
  case (load_ok n m)
  with assms(1) show ?thesis by (simp add: guard_ok_inside)
next
  case (load_raises n e)
  with assms(1) show ?thesis by (simp add: guard_ok_inside)
next
  case (insert n m)
  with assms(1) show ?thesis by (simp add: guard_ok_inside)
next
  case (failed n e)
  with assms(1) show ?thesis by (simp add: guard_ok_inside)
next
  case (release n r)
  with assms(1) show ?thesis by (simp add: guard_ok_release)
qed

lemma guard_ok_start: "guard_ok (start_config k n st)"
  by (simp add: guard_ok_def start_config_def)

lemma run_schedule_induct:
  assumes "P c" and "\<And>i c c'. P c \<Longrightarrow> thread_step env i c = Some c' \<Longrightarrow> P c'"
  shows "P (run_schedule env sched c)"
  using assms(1)
proof (induction sched arbitrary: c)
  case Nil
  then show ?case by simp
next
  case (Cons i sched)
  show ?case
  proof (cases "thread_step env i c")
    case None
    with Cons show ?thesis by simp
  next
    case (Some c')
    with Cons.prems have "P c'" by (auto intro: assms(2))
    with Some Cons.IH show ?thesis by simp
  qed
qed

lemma guard_ok_run: "guard_ok c \<Longrightarrow> guard_ok (run_schedule env sched c)"
  by (rule run_schedule_induct) (auto intro: guard_ok_step)

lemma sum_list_map_update:
  fixes f :: "'a \<Rightarrow> nat"
  assumes "i < length ts"
  shows "sum_list (map f (ts[i := t])) + f (ts ! i) = sum_list (map f ts) + f t"
  using assms
proof (induction ts arbitrary: i)
  case Nil
  then show ?case by simp
next
  case (Cons a ts)
  then show ?case by (cases i) auto
qed

lemma work_left_update:
  assumes "i < length (threads c)"
  shows "work_left (c\<lparr>threads := (threads c)[i := t]\<rparr>) + steps_left (snd (threads c ! i))
           = work_left c + steps_left (snd t)"
  using sum_list_map_update [OF assms, of "\<lambda>t. steps_left (snd t)" t]
  by (simp add: work_left_def)

lemma past_load_update:
  assumes "i < length (threads c)" and "threads c' = (threads c)[i := t]"
  shows "past_load c' + load_attempted (snd (threads c ! i))
           = past_load c + load_attempted (snd t)"
  using sum_list_map_update [OF assms(1), of "\<lambda>t. load_attempted (snd t)" t] assms(2)
  by (simp add: past_load_def)

lemma work_left_step:
  assumes "thread_step env i c = Some c'"
  shows "work_left c' < work_left c"
  using assms
proof (cases rule: thread_stepE)
  case (acquire n)
  with work_left_update [of i c "(n, Locked)"] show ?thesis by (simp add: work_left_def)
next
  case (hit n cached)
  with work_left_update [of i c "(n, Leaving (Some cached))"] show ?thesis
    by (simp add: work_left_def)
next
  case (miss n)
  with work_left_update [of i c "(n, Loading)"] show ?thesis by (simp add: work_left_def)
next
  case (load_ok n m)
  with work_left_update [of i c "(n, Loaded m)"] show ?thesis by (simp add: work_left_def)
next
  case (load_raises n e)
  with work_left_update [of i c "(n, Failed e)"] show ?thesis by (simp add: work_left_def)
next
  case (insert n m)
  with work_left_update [of i c "(n, Leaving (Some m))"] show ?thesis
    by (simp add: work_left_def)
next
  case (failed n e)
  with work_left_update [of i c "(n, Leaving None)"] show ?thesis by (simp add: work_left_def)
next
  case (release n r)
  with work_left_update [of i c "(n, Done r)"] show ?thesis by (simp add: work_left_def)
qed

lemma inside_can_step:
  assumes "i < length (threads c)" and "in_block (snd (threads c ! i))"
  shows "thread_step env i c \<noteq> None"
  using assms
  by (cases "snd (threads c ! i)")
     (simp_all add: thread_step_def Let_def split: option.splits sum.splits)

lemma start_can_step:
  assumes "i < length (threads c)" and "snd (threads c ! i) = Start" and "\<not> lock_held c"
  shows "thread_step env i c \<noteq> None"
  using assms by (simp add: thread_step_def Let_def)

lemma no_deadlock:
  assumes "guard_ok c" and "\<not> all_done c"
  shows "\<exists>i < length (threads c). thread_step env i c \<noteq> None"
proof (cases "lock_held c")
  case True
  with assms(1) obtain i where "i < length (threads c)" "in_block (snd (threads c ! i))"
    by (auto simp: guard_ok_def)
  then have "thread_step env i c \<noteq> None"
    by (rule inside_can_step)
  with \<open>i < length (threads c)\<close> show ?thesis
    by blast
next
  case False
  with assms(1) have outside: "\<forall>j < length (threads c). \<not> in_block (snd (threads c ! j))"
    by (auto simp: guard_ok_def)
  from assms(2) obtain t where "t \<in> set (threads c)"
    and nd: "\<not> (case snd t of Done r \<Rightarrow> True | _ \<Rightarrow> False)"
    by (auto simp: all_done_def)
  then obtain i where i: "i < length (threads c)" "threads c ! i = t"
    by (auto simp: in_set_conv_nth)
  with outside have "\<not> in_block (snd t)" by auto
  with nd have "snd t = Start"
    by (cases "snd t") simp_all
  with i False have "thread_step env i c \<noteq> None"
    by (intro start_can_step) simp_all
  with i(1) show ?thesis
    by blast
qed

text \<open>One caller alone goes through exactly what \<open>load_whisper_model\<close> does.\<close>

lemma single_caller:
  "run_schedule env [0, 0, 0, 0, 0] (start_config 1 name st)
     = \<lparr>threads = [(name, Done (fst (load_whisper_model env name st)))], lock_held = False,
        shared = snd (load_whisper_model env name st)\<rparr>"
proof (cases "loaded_models st name")
  case (Some cached)
  then show ?thesis
    by (simp add: thread_step_def start_config_def load_whisper_model_def Let_def logger_def)
next
  case None
  show ?thesis
  proof (cases "whisper_load_model env (load_calls st) name")
    case (Inl e)
    with None show ?thesis
      by (simp add: thread_step_def start_config_def load_whisper_model_def Let_def logger_def)
  next
    case (Inr m)
    with None show ?thesis
      by (simp add: thread_step_def start_config_def load_whisper_model_def Let_def logger_def)
  qed
qed

lemma others_outside:
  assumes "guard_ok c" and "i < length (threads c)" and "in_block (snd (threads c ! i))"
      and "j < length (threads c)" and "j \<noteq> i"
  shows "\<not> in_block (snd (threads c ! j))"
  using assms by (auto simp: guard_ok_def)

lemma held_if_inside:
  assumes "guard_ok c" and "j < length (threads c)" and "in_block (snd (threads c ! j))"
  shows "lock_held c"
  using assms by (auto simp: guard_ok_def)

lemma loads_once_step:
  assumes inv: "loads_once name m calls0 c"
      and eng: "whisper_load_model env calls0 name = Inr m"
      and step: "thread_step env i c = Some c'"
  shows "loads_once name m calls0 c'"
proof -
  from inv have g: "guard_ok c"
    and names: "\<forall>j < length (threads c). fst (threads c ! j) = name"
    by (simp_all add: loads_once_def)
  from g step have g': "guard_ok c'"
    by (rule guard_ok_step)
  let ?A = "loaded_models (shared c) name = None \<and> load_calls (shared c) = calls0
         \<and> (\<forall>j < length (threads c). snd (threads c ! j) \<in> {Start, Locked, Loading})"
  let ?B = "loaded_models (shared c) name = None
         \<and> load_calls (shared c) = calls0 @ [name]
         \<and> (\<exists>j < length (threads c). snd (threads c ! j) = Loaded m)
         \<and> (\<forall>j < length (threads c). snd (threads c ! j) \<in> {Start, Loaded m})"
  let ?C = "loaded_models (shared c) name = Some m
         \<and> load_calls (shared c) = calls0 @ [name]
         \<and> (\<forall>j < length (threads c).
               snd (threads c ! j) \<in> {Start, Locked, Leaving (Some m), Done (Some m)})"
  from inv have phases: "?A \<or> ?B \<or> ?C"
    by (simp add: loads_once_def)
  from step show ?thesis
  proof (cases rule: thread_stepE)
    case (acquire n)
    with names have n: "n = name" by auto
    have notB: "\<not> ?B"
    proof
      assume ?B
      then obtain j where "j < length (threads c)" "snd (threads c ! j) = Loaded m" by blast
      with g have "lock_held c" by (intro held_if_inside[of c j]) simp_all
      with acquire show False by simp
    qed
    with phases have "?A \<or> ?C" by blast
    with g' names acquire n show ?thesis
      unfolding loads_once_def by (auto simp: nth_list_update)
  next
    case (hit n cached)
    with names have n: "n = name" by auto
    with hit phases have c: "?C" and "cached = m" by auto
    with g' names hit n show ?thesis
      unfolding loads_once_def by (auto simp: nth_list_update)
  next
    case (miss n)
    with names have n: "n = name" by auto
    have notB: "\<not> ?B"
      using miss by auto
    with miss n phases have "?A" by auto
    with g' names miss n show ?thesis
      unfolding loads_once_def by (auto simp: nth_list_update)
  next
    case (load_ok n m')
    with names have n: "n = name" by auto
    from load_ok phases have a: "?A" by auto
    with load_ok n eng have m': "m' = m" by simp
    have others: "\<forall>j < length (threads c). j \<noteq> i \<longrightarrow> snd (threads c ! j) = Start"
    proof (intro allI impI)
      fix j assume j: "j < length (threads c)" "j \<noteq> i"
      with g load_ok have "\<not> in_block (snd (threads c ! j))"
        by (intro others_outside[of c i j]) simp_all
      moreover from a j have "snd (threads c ! j) \<in> {Start, Locked, Loading}" by blast
      ultimately show "snd (threads c ! j) = Start" by auto
    qed
    have "loaded_models (shared c') name = None
         \<and> load_calls (shared c') = calls0 @ [name]
         \<and> (\<exists>j < length (threads c'). snd (threads c' ! j) = Loaded m)
         \<and> (\<forall>j < length (threads c'). snd (threads c' ! j) \<in> {Start, Loaded m})"
      using a others load_ok n m' by (auto simp: nth_list_update)
    moreover have "\<forall>j < length (threads c'). fst (threads c' ! j) = name"
      using names load_ok n by (auto simp: nth_list_update)
    ultimately show ?thesis
      using g' unfolding loads_once_def by blast
  next
    case (load_raises n e)
    with names have n: "n = name" by auto
    from load_raises phases have a: "?A" by auto
    with load_raises n eng show ?thesis by simp
  next
    case (insert n m')
    with names have n: "n = name" by auto
    from insert phases have b: "?B" and m': "m' = m" by auto
    have others: "\<forall>j < length (threads c). j \<noteq> i \<longrightarrow> snd (threads c ! j) = Start"
    proof (intro allI impI)
      fix j assume j: "j < length (threads c)" "j \<noteq> i"
      with g insert have "\<not> in_block (snd (threads c ! j))"
        by (intro others_outside[of c i j]) simp_all
      moreover from b j have "snd (threads c ! j) \<in> {Start, Loaded m}" by blast
      ultimately show "snd (threads c ! j) = Start" by auto
    qed
    have "loaded_models (shared c') name = Some m
         \<and> load_calls (shared c') = calls0 @ [name]
         \<and> (\<forall>j < length (threads c').
               snd (threads c' ! j) \<in> {Start, Locked, Leaving (Some m), Done (Some m)})"
      using b others insert n m' by (auto simp: nth_list_update)
    moreover have "\<forall>j < length (threads c'). fst (threads c' ! j) = name"
      using names insert n by (auto simp: nth_list_update)
    ultimately show ?thesis
      using g' unfolding loads_once_def by blast
  next
    case (failed n e)
    with phases show ?thesis by auto
  next
    case (release n r)
    with names have n: "n = name" by auto
    from release phases have c: "?C" and r: "r = Some m" by auto
    with g' names release n show ?thesis
      unfolding loads_once_def by (auto simp: nth_list_update)
  qed
qed


lemma loads_each_time_step:
  assumes inv: "loads_each_time name calls0 c"
      and eng: "\<And>h. \<exists>e. whisper_load_model env h name = Inl e"
      and step: "thread_step env i c = Some c'"
  shows "loads_each_time name calls0 c'"
proof -
  from inv have names: "\<forall>j < length (threads c). fst (threads c ! j) = name"
    and cache: "loaded_models (shared c) name = None"
    and calls: "load_calls (shared c) = calls0 @ replicate (past_load c) name"
    and pcs: "\<forall>j < length (threads c). case snd (threads c ! j) of
            Loaded m \<Rightarrow> False | Leaving r \<Rightarrow> r = None | Done r \<Rightarrow> r = None | _ \<Rightarrow> True"
    by (simp_all add: loads_each_time_def)
  from step show ?thesis
  proof (cases rule: thread_stepE)
    case (acquire n)
    with names have n: "n = name" by auto
    from acquire past_load_update [of i c c' "(n, Locked)"] have "past_load c' = past_load c"
      by simp
    with names cache calls pcs acquire n show ?thesis
      unfolding loads_each_time_def by (auto simp: nth_list_update)
  next
    case (hit n cached)
    with names have n: "n = name" by auto
    with hit cache show ?thesis by simp
  next
    case (miss n)
    with names have n: "n = name" by auto
    from miss past_load_update [of i c c' "(n, Loading)"] have "past_load c' = past_load c"
      by simp
    with names cache calls pcs miss n show ?thesis
      unfolding loads_each_time_def by (auto simp: nth_list_update)
  next
    case (load_ok n m)
    with names have n: "n = name" by auto
    with load_ok eng [of "load_calls (shared c)"] show ?thesis by auto
  next
    case (load_raises n e)
    with names have n: "n = name" by auto
    from load_raises past_load_update [of i c c' "(n, Failed e)"]
    have "past_load c' = Suc (past_load c)"
      by simp
    with names cache calls pcs load_raises n show ?thesis
      unfolding loads_each_time_def by (auto simp: nth_list_update replicate_append_same)
  next
    case (insert n m)
    with pcs show ?thesis by force
  next
    case (failed n e)
    with names have n: "n = name" by auto
    from failed past_load_update [of i c c' "(n, Leaving None)"] have "past_load c' = past_load c"
      by simp
    with names cache calls pcs failed n show ?thesis
      unfolding loads_each_time_def by (auto simp: nth_list_update)
  next
    case (release n r)
    with names have n: "n = name" by auto
    from release pcs have r: "r = None" by force
    from release past_load_update [of i c c' "(n, Done r)"] have "past_load c' = past_load c"
      by simp
    with names cache calls pcs release n r show ?thesis
      unfolding loads_each_time_def by (auto simp: nth_list_update)
  qed
qed

lemma loads_once_start:
  assumes "loaded_models st name = None"
  shows "loads_once name m (load_calls st) (start_config n name st)"
  using assms by (simp add: loads_once_def guard_ok_start) (simp add: start_config_def)

lemma past_load_start: "past_load (start_config n name st) = 0"
  by (simp add: past_load_def start_config_def)

lemma loads_each_time_start:
  assumes "loaded_models st name = None"
  shows "loads_each_time name (load_calls st) (start_config n name st)"
  using assms by (simp add: loads_each_time_def past_load_start) (simp add: start_config_def)

lemma thread_step_length:
  assumes "thread_step env i c = Some c'"
  shows "length (threads c') = length (threads c)"
  using assms by (cases rule: thread_stepE) simp_all

lemma run_schedule_length:
  "length (threads (run_schedule env sched c)) = length (threads c)"
proof -
  have "length (threads (run_schedule env sched c)) = length (threads c)"
    by (rule run_schedule_induct [where P = "\<lambda>c'. length (threads c') = length (threads c)"])
       (simp_all add: thread_step_length)
  then show ?thesis .
qed

lemma returned_iff:
  "r \<in> set (returned c) \<longleftrightarrow> (\<exists>j < length (threads c). snd (threads c ! j) = Done r)"
proof
  assume "r \<in> set (returned c)"
  then obtain t where "t \<in> set (threads c)" and "snd t = Done r"
    by (auto simp: returned_def split: pc.splits)
  then show "\<exists>j < length (threads c). snd (threads c ! j) = Done r"
    by (auto simp: in_set_conv_nth)
next
  assume "\<exists>j < length (threads c). snd (threads c ! j) = Done r"
  then obtain j where "j < length (threads c)" "snd (threads c ! j) = Done r"
    by blast
  then have "threads c ! j \<in> set (threads c)" "snd (threads c ! j) = Done r"
    by simp_all
  then show "r \<in> set (returned c)"
    unfolding returned_def by (auto intro!: bexI [of _ "threads c ! j"])
qed

lemma all_done_past_load:
  assumes "all_done c"
  shows "past_load c = length (threads c)"
proof -
  have "\<forall>t \<in> set ts. (case snd t of Done r \<Rightarrow> True | _ \<Rightarrow> False) \<Longrightarrow>
          sum_list (map (\<lambda>t. load_attempted (snd t)) ts) = length ts"
    for ts :: "(string \<times> 'a pc) list"
  proof (induction ts)
    case Nil
    then show ?case by simp
  next
    case (Cons t ts)
    then show ?case by (cases "snd t") simp_all
  qed
  with assms show ?thesis
    by (simp add: all_done_def past_load_def)
qed

lemma loads_once_run:
  assumes "loaded_models st name = None"
      and "whisper_load_model env (load_calls st) name = Inr m"
  shows "loads_once name m (load_calls st) (run_schedule env sched (start_config n name st))"
proof (rule run_schedule_induct)
  show "loads_once name m (load_calls st) (start_config n name st)"
    using assms(1) by (rule loads_once_start)
next
  fix i c c'
  assume "loads_once name m (load_calls st) c" and "thread_step env i c = Some c'"
  with assms(2) show "loads_once name m (load_calls st) c'"
    by (intro loads_once_step [of name m "load_calls st" c env i c'])
qed

lemma loads_each_time_run:
  assumes "loaded_models st name = None"
      and "\<And>h. \<exists>e. whisper_load_model env h name = Inl e"
  shows "loads_each_time name (load_calls st) (run_schedule env sched (start_config n name st))"
proof (rule run_schedule_induct)
  show "loads_each_time name (load_calls st) (start_config n name st)"
    using assms(1) by (rule loads_each_time_start)
next
  fix i c c'
  assume "loads_each_time name (load_calls st) c" and "thread_step env i c = Some c'"
  with assms(2) show "loads_each_time name (load_calls st) c'"
    by (intro loads_each_time_step [of name "load_calls st" c env i c'])
qed

lemma loads_once_results:
  assumes "loads_once name m calls0 c"
  shows "set (returned c) \<subseteq> {Some m}"
    and "load_calls (shared c) = calls0 \<or> load_calls (shared c) = calls0 @ [name]"
    and "returned c \<noteq> [] \<Longrightarrow>
           load_calls (shared c) = calls0 @ [name] \<and> loaded_models (shared c) name = Some m"
proof -
  show "set (returned c) \<subseteq> {Some m}"
  proof
    fix r assume "r \<in> set (returned c)"
    then obtain j where "j < length (threads c)" "snd (threads c ! j) = Done r"
      by (auto simp: returned_iff)
    with assms show "r \<in> {Some m}"
      unfolding loads_once_def by force
  qed
  show "load_calls (shared c) = calls0 \<or> load_calls (shared c) = calls0 @ [name]"
    using assms unfolding loads_once_def by blast
  assume "returned c \<noteq> []"
  then obtain r where "r \<in> set (returned c)"
    by (cases "returned c") auto
  then obtain j where "j < length (threads c)" "snd (threads c ! j) = Done r"
    by (auto simp: returned_iff)
  with assms show "load_calls (shared c) = calls0 @ [name] \<and> loaded_models (shared c) name = Some m"
    unfolding loads_once_def by force
qed

lemma loads_each_time_results:
  assumes "loads_each_time name calls0 c"
  shows "set (returned c) \<subseteq> {None}"
    and "loaded_models (shared c) name = None"
    and "all_done c \<Longrightarrow> load_calls (shared c) = calls0 @ replicate (length (threads c)) name"
proof -
  show "set (returned c) \<subseteq> {None}"
  proof
    fix r assume "r \<in> set (returned c)"
    then obtain j where "j < length (threads c)" "snd (threads c ! j) = Done r"
      by (auto simp: returned_iff)
    with assms show "r \<in> {None}"
      unfolding loads_each_time_def by force
  qed
  show "loaded_models (shared c) name = None"
    using assms by (simp add: loads_each_time_def)
  assume "all_done c"
  then have "past_load c = length (threads c)"
    by (rule all_done_past_load)
  with assms show "load_calls (shared c) = calls0 @ replicate (length (threads c)) name"
    by (simp add: loads_each_time_def)
qed

lemma failed_callers_update:
  assumes "i < length (threads c)" and "threads c' = (threads c)[i := t]"
  shows "failed_callers c' + got_none (snd (threads c ! i))
           = failed_callers c + got_none (snd t)"
  using sum_list_map_update [OF assms(1), of "\<lambda>t. got_none (snd t)" t] assms(2)
  by (simp add: failed_callers_def)

lemma all_failed_Suc:
  assumes "all_failed env calls0 name k" and "attempt env calls0 name k = Inl e"
  shows "all_failed env calls0 name (Suc k)"
  using assms by (auto simp: all_failed_def less_Suc_eq)

lemma fetch_inv_start:
  assumes "loaded_models st name = None"
  shows "fetch_inv env name (load_calls st) (start_config n name st)"
proof -
  have "failed_callers (start_config n name st) = 0"
    by (simp add: failed_callers_def start_config_def)
  with assms show ?thesis
    by (simp add: fetch_inv_def guard_ok_start all_failed_def) (simp add: start_config_def)
qed

lemma all_pcs_update:
  assumes "threads c' = (threads c)[i := (n, p)]"
      and "P p"
      and "\<forall>j < length (threads c). j \<noteq> i \<longrightarrow> P (snd (threads c ! j))"
  shows "\<forall>j < length (threads c'). P (snd (threads c' ! j))"
proof (intro allI impI)
  fix j assume "j < length (threads c')"
  with assms show "P (snd (threads c' ! j))"
    by (cases "j = i") simp_all
qed

lemma ex_pcs_self:
  assumes "threads c' = (threads c)[i := (n, p)]" and "i < length (threads c)" and "Q p"
  shows "\<exists>j < length (threads c'). Q (snd (threads c' ! j))"
  using assms by (intro exI [of _ i]) simp

lemma ex_pcs_other:
  assumes "threads c' = (threads c)[i := (n, p)]"
      and "j < length (threads c)" and "j \<noteq> i" and "Q (snd (threads c ! j))"
  shows "\<exists>j < length (threads c'). Q (snd (threads c' ! j))"
  using assms by (intro exI [of _ j]) simp

lemma names_update:
  assumes "threads c' = (threads c)[i := (name, p)]"
      and "\<forall>j < length (threads c). fst (threads c ! j) = name"
  shows "\<forall>j < length (threads c'). fst (threads c' ! j) = name"
proof (intro allI impI)
  fix j assume "j < length (threads c')"
  with assms show "fst (threads c' ! j) = name"
    by (cases "j = i") simp_all
qed


lemma fetch_inv_step:
  assumes inv: "fetch_inv env name calls0 c"
      and step: "thread_step env i c = Some c'"
  shows "fetch_inv env name calls0 c'"
proof -
  let ?k = "failed_callers c"
  let ?pA = "\<lambda>p. case p of
                 Loaded m \<Rightarrow> False | Leaving r \<Rightarrow> r = None | Done r \<Rightarrow> r = None | _ \<Rightarrow> True"
  let ?A = "\<lambda>c. loaded_models (shared c) name = None
           \<and> load_calls (shared c) = calls0 @ replicate (failed_callers c) name
           \<and> (\<forall>j < length (threads c). ?pA (snd (threads c ! j)))"
  let ?B = "\<lambda>c m. attempt env calls0 name (failed_callers c) = Inr m
              \<and> load_calls (shared c) = calls0 @ replicate (Suc (failed_callers c)) name
              \<and> loaded_models (shared c) name = None
              \<and> (\<exists>j < length (threads c). snd (threads c ! j) = Loaded m)
              \<and> (\<forall>j < length (threads c). snd (threads c ! j) \<in> {Start, Loaded m, Done None})"
  let ?C = "\<lambda>c m. attempt env calls0 name (failed_callers c) = Inr m
              \<and> load_calls (shared c) = calls0 @ replicate (Suc (failed_callers c)) name
              \<and> loaded_models (shared c) name = Some m
              \<and> (\<exists>j < length (threads c).
                         snd (threads c ! j) \<in> {Leaving (Some m), Done (Some m)})
              \<and> (\<forall>j < length (threads c).
                         snd (threads c ! j)
                           \<in> {Start, Locked, Leaving (Some m), Done (Some m), Done None})"
  have intro_inv: "fetch_inv env name calls0 c'"
    if "guard_ok c'" "\<forall>j < length (threads c'). fst (threads c' ! j) = name"
      "all_failed env calls0 name (failed_callers c')"
      "?A c' \<or> (\<exists>m. ?B c' m) \<or> (\<exists>m. ?C c' m)"
    using that unfolding fetch_inv_def by blast
  from inv have g: "guard_ok c"
    and names: "\<forall>j < length (threads c). fst (threads c ! j) = name"
    and fails: "all_failed env calls0 name ?k"
    and phases: "?A c \<or> (\<exists>m. ?B c m) \<or> (\<exists>m. ?C c m)"
    unfolding fetch_inv_def by blast+
  from g step have g': "guard_ok c'"
    by (rule guard_ok_step)
  have rest: "snd (threads c ! j) \<in> {Start, Done None}"
    if "i < length (threads c)" "in_block (snd (threads c ! i))"
       "j < length (threads c)" "j \<noteq> i"
       "?pA (snd (threads c ! j)) \<or> (\<exists>m. snd (threads c ! j) \<in> {Start, Loaded m, Done None})"
    for j
  proof -
    from g that(1-4) have "\<not> in_block (snd (threads c ! j))"
      by (intro others_outside [of c i j])
    with that(5) show ?thesis
      by (cases "snd (threads c ! j)") auto
  qed
  have posA: "?pA (snd (threads c ! i))" if "?A c" "i < length (threads c)"
    using that by blast
  have posB: "snd (threads c ! i) \<in> {Start, Loaded m, Done None}"
    if "?B c m" "i < length (threads c)" for m
    using that by blast
  have posC: "snd (threads c ! i) \<in> {Start, Locked, Leaving (Some m), Done (Some m), Done None}"
    if "?C c m" "i < length (threads c)" for m
    using that by blast
  from step show ?thesis
  proof (cases rule: thread_stepE)
    case (acquire n)
    with names have n: "n = name" by auto
    from acquire n have th: "threads c' = (threads c)[i := (name, Locked)]"
      and lm: "loaded_models (shared c') = loaded_models (shared c)"
      and lc: "load_calls (shared c') = load_calls (shared c)"
      by simp_all
    note len = acquire(1) and pc = acquire(2)
    from th names have names': "\<forall>j < length (threads c'). fst (threads c' ! j) = name"
      by (rule names_update)
    from len th pc failed_callers_update [of i c c' "(name, Locked)"]
    have k: "failed_callers c' = ?k" by simp
    have notB: "\<not> (\<exists>m. ?B c m)"
    proof
      assume "\<exists>m. ?B c m"
      then obtain m j where "j < length (threads c)" "snd (threads c ! j) = Loaded m" by blast
      with g have "lock_held c" by (intro held_if_inside [of c j]) simp_all
      with acquire(3) show False by simp
    qed
    with phases have "?A c \<or> (\<exists>m. ?C c m)" by blast
    then have "?A c' \<or> (\<exists>m. ?C c' m)"
    proof
      assume a: "?A c"
      from th have "\<forall>j < length (threads c'). ?pA (snd (threads c' ! j))"
        by (rule all_pcs_update) (use a in simp_all)
      with a lm lc k show ?thesis by simp
    next
      assume "\<exists>m. ?C c m"
      then obtain m where cm: "?C c m" ..
      then obtain j where j: "j < length (threads c)"
        "snd (threads c ! j) \<in> {Leaving (Some m), Done (Some m)}" by blast
      with pc have ji: "j \<noteq> i" by auto
      from th j(1) ji j(2)
      have e: "\<exists>j < length (threads c'). snd (threads c' ! j) \<in> {Leaving (Some m), Done (Some m)}"
        by (rule ex_pcs_other)
      from th have "\<forall>j < length (threads c').
            snd (threads c' ! j) \<in> {Start, Locked, Leaving (Some m), Done (Some m), Done None}"
        by (rule all_pcs_update) (use cm in simp_all)
      with cm e lm lc k have "?C c' m" by simp
      then show ?thesis by blast
    qed
    then have "?A c' \<or> (\<exists>m. ?B c' m) \<or> (\<exists>m. ?C c' m)"
      by blast
    moreover from fails k have "all_failed env calls0 name (failed_callers c')"
      by simp
    ultimately show ?thesis
      using g' names' by (intro intro_inv)
  next
    case (hit n cached)
    with names have n: "n = name" by auto
    from hit n have th: "threads c' = (threads c)[i := (name, Leaving (Some cached))]"
      and lm: "loaded_models (shared c') = loaded_models (shared c)"
      and lc: "load_calls (shared c') = load_calls (shared c)"
      by simp_all
    note len = hit(1) and pc = hit(2)
    from th names have names': "\<forall>j < length (threads c'). fst (threads c' ! j) = name"
      by (rule names_update)
    from len th pc failed_callers_update [of i c c' "(name, Leaving (Some cached))"]
    have k: "failed_callers c' = ?k" by simp
    from hit(3) n phases obtain m where cm: "?C c m" by auto
    with hit(3) n have m: "cached = m" by simp
    from th len have e: "\<exists>j < length (threads c').
        snd (threads c' ! j) \<in> {Leaving (Some m), Done (Some m)}"
      by (rule ex_pcs_self) (simp add: m)
    from th have "\<forall>j < length (threads c').
            snd (threads c' ! j) \<in> {Start, Locked, Leaving (Some m), Done (Some m), Done None}"
      by (rule all_pcs_update) (use cm m in simp_all)
    with cm e lm lc k have "?C c' m" by simp
    then have "?A c' \<or> (\<exists>m. ?B c' m) \<or> (\<exists>m. ?C c' m)"
      by blast
    moreover from fails k have "all_failed env calls0 name (failed_callers c')"
      by simp
    ultimately show ?thesis
      using g' names' by (intro intro_inv)
  next
    case (miss n)
    with names have n: "n = name" by auto
    from miss n have th: "threads c' = (threads c)[i := (name, Loading)]"
      and lm: "loaded_models (shared c') = loaded_models (shared c)"
      and lc: "load_calls (shared c') = load_calls (shared c)"
      by simp_all
    note len = miss(1) and pc = miss(2)
    from th names have names': "\<forall>j < length (threads c'). fst (threads c' ! j) = name"
      by (rule names_update)
    from len th pc failed_callers_update [of i c c' "(name, Loading)"]
    have k: "failed_callers c' = ?k" by simp
    have pci: "snd (threads c ! i) = Locked" using pc by simp
    from phases have a: "?A c"
    proof (elim disjE exE)
      assume "?A c" then show ?thesis .
    next
      fix m assume "?B c m"
      from posB [OF this len] pci show ?thesis by simp
    next
      fix m assume "?C c m"
      with miss(3) n show ?thesis by simp
    qed
    from th have "\<forall>j < length (threads c'). ?pA (snd (threads c' ! j))"
      by (rule all_pcs_update) (use a in simp_all)
    with a lm lc k have "?A c'" by simp
    then have "?A c' \<or> (\<exists>m. ?B c' m) \<or> (\<exists>m. ?C c' m)"
      by blast
    moreover from fails k have "all_failed env calls0 name (failed_callers c')"
      by simp
    ultimately show ?thesis
      using g' names' by (intro intro_inv)
  next
    case (load_ok n m)
    with names have n: "n = name" by auto
    from load_ok n have th: "threads c' = (threads c)[i := (name, Loaded m)]"
      and lm: "loaded_models (shared c') = loaded_models (shared c)"
      and lc: "load_calls (shared c') = load_calls (shared c) @ [name]"
      by simp_all
    note len = load_ok(1) and pc = load_ok(2)
    from th names have names': "\<forall>j < length (threads c'). fst (threads c' ! j) = name"
      by (rule names_update)
    from len th pc failed_callers_update [of i c c' "(name, Loaded m)"]
    have k: "failed_callers c' = ?k" by simp
    have pci: "snd (threads c ! i) = Loading" using pc by simp
    from phases have a: "?A c"
    proof (elim disjE exE)
      assume "?A c" then show ?thesis .
    next
      fix m assume "?B c m"
      from posB [OF this len] pci show ?thesis by simp
    next
      fix m assume "?C c m"
      from posC [OF this len] pci show ?thesis by simp
    qed
    with load_ok(3) n have att: "attempt env calls0 name ?k = Inr m"
      by (simp add: attempt_def)
    have r: "\<forall>j < length (threads c). j \<noteq> i \<longrightarrow> snd (threads c ! j) \<in> {Start, Done None}"
    proof (intro allI impI)
      fix j assume j: "j < length (threads c)" "j \<noteq> i"
      from a j(1) have "?pA (snd (threads c ! j))" by blast
      with len pci j show "snd (threads c ! j) \<in> {Start, Done None}"
        by (intro rest) simp_all
    qed
    from th len have e: "\<exists>j < length (threads c'). snd (threads c' ! j) = Loaded m"
      by (rule ex_pcs_self) simp
    from th have "\<forall>j < length (threads c'). snd (threads c' ! j) \<in> {Start, Loaded m, Done None}"
      by (rule all_pcs_update) (use r in auto)
    moreover have "load_calls (shared c') = calls0 @ replicate (Suc (failed_callers c')) name"
      using a lc k by (simp add: replicate_append_same)
    ultimately have "?B c' m"
      using att k e a lm by simp
    then have "?A c' \<or> (\<exists>m. ?B c' m) \<or> (\<exists>m. ?C c' m)"
      by blast
    moreover from fails k have "all_failed env calls0 name (failed_callers c')"
      by simp
    ultimately show ?thesis
      using g' names' by (intro intro_inv)
  next
    case (load_raises n e)
    with names have n: "n = name" by auto
    from load_raises n have th: "threads c' = (threads c)[i := (name, Failed e)]"
      and lm: "loaded_models (shared c') = loaded_models (shared c)"
      and lc: "load_calls (shared c') = load_calls (shared c) @ [name]"
      by simp_all
    note len = load_raises(1) and pc = load_raises(2)
    from th names have names': "\<forall>j < length (threads c'). fst (threads c' ! j) = name"
      by (rule names_update)
    from len th pc failed_callers_update [of i c c' "(name, Failed e)"]
    have k: "failed_callers c' = Suc ?k" by simp
    have pci: "snd (threads c ! i) = Loading" using pc by simp
    from phases have a: "?A c"
    proof (elim disjE exE)
      assume "?A c" then show ?thesis .
    next
      fix m assume "?B c m"
      from posB [OF this len] pci show ?thesis by simp
    next
      fix m assume "?C c m"
      from posC [OF this len] pci show ?thesis by simp
    qed
    with load_raises(3) n have att: "attempt env calls0 name ?k = Inl e"
      by (simp add: attempt_def)
    with fails have fails': "all_failed env calls0 name (failed_callers c')"
      unfolding k by (rule all_failed_Suc)
    from th have "\<forall>j < length (threads c'). ?pA (snd (threads c' ! j))"
      by (rule all_pcs_update) (use a in simp_all)
    with a lm lc k have "?A c'" by (simp add: replicate_append_same)
    then have "?A c' \<or> (\<exists>m. ?B c' m) \<or> (\<exists>m. ?C c' m)"
      by blast
    with g' names' fails' show ?thesis
      by (intro intro_inv)
  next
    case (insert n m)
    with names have n: "n = name" by auto
    from insert n have th: "threads c' = (threads c)[i := (name, Leaving (Some m))]"
      and lm: "loaded_models (shared c') name = Some m"
      and lc: "load_calls (shared c') = load_calls (shared c)"
      by simp_all
    note len = insert(1) and pc = insert(2)
    from th names have names': "\<forall>j < length (threads c'). fst (threads c' ! j) = name"
      by (rule names_update)
    from len th pc failed_callers_update [of i c c' "(name, Leaving (Some m))"]
    have k: "failed_callers c' = ?k" by simp
    have pci: "snd (threads c ! i) = Loaded m" using pc by simp
    from phases have b: "?B c m"
    proof (elim disjE exE)
      assume "?A c"
      from posA [OF this len] pci show ?thesis by simp
    next
      fix m' assume b': "?B c m'"
      from posB [OF this len] pci have "m' = m" by simp
      with b' show ?thesis by simp
    next
      fix m' assume "?C c m'"
      from posC [OF this len] pci show ?thesis by simp
    qed
    define m' where "m' = m"
    then have m: "m' = m" by simp
    have r: "\<forall>j < length (threads c). j \<noteq> i \<longrightarrow> snd (threads c ! j) \<in> {Start, Done None}"
    proof (intro allI impI)
      fix j assume j: "j < length (threads c)" "j \<noteq> i"
      from b j(1) have "snd (threads c ! j) \<in> {Start, Loaded m, Done None}" by blast
      then have "\<exists>m. snd (threads c ! j) \<in> {Start, Loaded m, Done None}" ..
      with len pci j show "snd (threads c ! j) \<in> {Start, Done None}"
        by (intro rest) simp_all
    qed
    from th len have e: "\<exists>j < length (threads c').
        snd (threads c' ! j) \<in> {Leaving (Some m), Done (Some m)}"
      by (rule ex_pcs_self) simp
    from th have "\<forall>j < length (threads c').
            snd (threads c' ! j) \<in> {Start, Locked, Leaving (Some m), Done (Some m), Done None}"
      by (rule all_pcs_update) (use r in auto)
    with b m e lm lc k have "?C c' m" by simp
    then have "?A c' \<or> (\<exists>m. ?B c' m) \<or> (\<exists>m. ?C c' m)"
      by blast
    moreover from fails k have "all_failed env calls0 name (failed_callers c')"
      by simp
    ultimately show ?thesis
      using g' names' by (intro intro_inv)
  next
    case (failed n e)
    with names have n: "n = name" by auto
    from failed n have th: "threads c' = (threads c)[i := (name, Leaving None)]"
      and lm: "loaded_models (shared c') = loaded_models (shared c)"
      and lc: "load_calls (shared c') = load_calls (shared c)"
      by simp_all
    note len = failed(1) and pc = failed(2)
    from th names have names': "\<forall>j < length (threads c'). fst (threads c' ! j) = name"
      by (rule names_update)
    from len th pc failed_callers_update [of i c c' "(name, Leaving None)"]
    have k: "failed_callers c' = ?k" by simp
    have pci: "snd (threads c ! i) = Failed e" using pc by simp
    from phases have a: "?A c"
    proof (elim disjE exE)
      assume "?A c" then show ?thesis .
    next
      fix m assume "?B c m"
      from posB [OF this len] pci show ?thesis by simp
    next
      fix m assume "?C c m"
      from posC [OF this len] pci show ?thesis by simp
    qed
    from th have "\<forall>j < length (threads c'). ?pA (snd (threads c' ! j))"
      by (rule all_pcs_update) (use a in simp_all)
    with a lm lc k have "?A c'" by simp
    then have "?A c' \<or> (\<exists>m. ?B c' m) \<or> (\<exists>m. ?C c' m)"
      by blast
    moreover from fails k have "all_failed env calls0 name (failed_callers c')"
      by simp
    ultimately show ?thesis
      using g' names' by (intro intro_inv)
  next
    case (release n r)
    with names have n: "n = name" by auto
    from release n have th: "threads c' = (threads c)[i := (name, Done r)]"
      and lm: "loaded_models (shared c') = loaded_models (shared c)"
      and lc: "load_calls (shared c') = load_calls (shared c)"
      by simp_all
    note len = release(1) and pc = release(2)
    from th names have names': "\<forall>j < length (threads c'). fst (threads c' ! j) = name"
      by (rule names_update)
    from len th pc failed_callers_update [of i c c' "(name, Done r)"]
    have k: "failed_callers c' = ?k" by (cases r) simp_all
    have pci: "snd (threads c ! i) = Leaving r" using pc by simp
    have notB: "\<not> (\<exists>m. ?B c m)"
    proof
      assume "\<exists>m. ?B c m"
      then obtain m where "?B c m" ..
      from posB [OF this len] pci show False by simp
    qed
    with phases have "?A c \<or> (\<exists>m. ?C c m)" by blast
    then have "?A c' \<or> (\<exists>m. ?C c' m)"
    proof
      assume a: "?A c"
      from posA [OF this len] pci have r: "r = None" by simp
      from th have "\<forall>j < length (threads c'). ?pA (snd (threads c' ! j))"
        by (rule all_pcs_update) (use a r in simp_all)
      with a lm lc k show ?thesis by simp
    next
      assume "\<exists>m. ?C c m"
      then obtain m where cm: "?C c m" ..
      from posC [OF this len] pci have r: "r = Some m" by simp
      from th len have e: "\<exists>j < length (threads c').
          snd (threads c' ! j) \<in> {Leaving (Some m), Done (Some m)}"
        by (rule ex_pcs_self) (simp add: r)
      from th have "\<forall>j < length (threads c').
            snd (threads c' ! j) \<in> {Start, Locked, Leaving (Some m), Done (Some m), Done None}"
        by (rule all_pcs_update) (use cm r in simp_all)
      with cm e lm lc k have "?C c' m" by simp
      then show ?thesis by blast
    qed
    then have "?A c' \<or> (\<exists>m. ?B c' m) \<or> (\<exists>m. ?C c' m)"
      by blast
    moreover from fails k have "all_failed env calls0 name (failed_callers c')"
      by simp
    ultimately show ?thesis
      using g' names' by (intro intro_inv)
  qed
qed

lemma got_none_le: "got_none p \<le> 1"
  by (cases p rule: got_none.cases) simp_all

lemma got_none_sum_le:
  "sum_list (map (\<lambda>t. got_none (snd t)) ts) \<le> length ts"
proof (induction ts)
  case Nil
  then show ?case by simp
next
  case (Cons t ts)
  with got_none_le [of "snd t"] show ?case by simp
qed

lemma failed_callers_le: "failed_callers c \<le> length (threads c)"
  by (simp add: failed_callers_def got_none_sum_le)

lemma failed_callers_less:
  assumes "j < length (threads c)" and "got_none (snd (threads c ! j)) = 0"
  shows "failed_callers c < length (threads c)"
proof -
  have "j < length ts \<Longrightarrow> got_none (snd (ts ! j)) = 0 \<Longrightarrow>
          sum_list (map (\<lambda>t. got_none (snd t)) ts) < length ts"
    for ts :: "(string \<times> 'a pc) list" and j
  proof (induction ts arbitrary: j)
    case Nil
    then show ?case by simp
  next
    case (Cons t ts)
    show ?case
    proof (cases j)
      case 0
      have "sum_list (map (\<lambda>t. got_none (snd t)) ts) \<le> length ts"
        by (rule got_none_sum_le)
      with 0 Cons.prems show ?thesis by simp
    next
      case (Suc j')
      with Cons.prems have "sum_list (map (\<lambda>t. got_none (snd t)) ts) < length ts"
        by (intro Cons.IH [of j']) simp_all
      with got_none_le [of "snd t"] show ?thesis by simp
    qed
  qed
  with assms show ?thesis
    by (simp add: failed_callers_def)
qed

lemma none_returned_le:
  "length (filter (\<lambda>r. r = None) (returned c)) \<le> failed_callers c"
proof -
  have "length (filter (\<lambda>r. r = None)
          (concat (map (\<lambda>t. case snd t of Done r \<Rightarrow> [r] | _ \<Rightarrow> []) ts)))
        \<le> sum_list (map (\<lambda>t. got_none (snd t)) ts)" for ts :: "(string \<times> 'a pc) list"
  proof (induction ts)
    case Nil
    then show ?case by simp
  next
    case (Cons t ts)
    then show ?case
      by (cases "snd t" rule: got_none.cases) simp_all
  qed
  then show ?thesis
    by (simp add: returned_def failed_callers_def)
qed

lemma none_returned_eq:
  assumes "all_done c"
  shows "length (filter (\<lambda>r. r = None) (returned c)) = failed_callers c"
proof -
  have "\<forall>t \<in> set ts. (case snd t of Done r \<Rightarrow> True | _ \<Rightarrow> False) \<Longrightarrow>
        length (filter (\<lambda>r. r = None)
          (concat (map (\<lambda>t. case snd t of Done r \<Rightarrow> [r] | _ \<Rightarrow> []) ts)))
        = sum_list (map (\<lambda>t. got_none (snd t)) ts)" for ts :: "(string \<times> 'a pc) list"
  proof (induction ts)
    case Nil
    then show ?case by simp
  next
    case (Cons t ts)
    then show ?case
      by (cases "snd t" rule: got_none.cases) simp_all
  qed
  with assms show ?thesis
    by (simp add: returned_def failed_callers_def all_done_def)
qed

lemma all_done_nth:
  assumes "all_done c" and "j < length (threads c)"
  shows "\<exists>r. snd (threads c ! j) = Done r"
proof -
  from assms have "case snd (threads c ! j) of Done r \<Rightarrow> True | _ \<Rightarrow> False"
    by (simp add: all_done_def)
  then show ?thesis
    by (cases "snd (threads c ! j)") simp_all
qed

lemma fetch_inv_results:
  assumes inv: "fetch_inv env name calls0 c"
  shows "\<exists>k \<le> length (threads c).
           all_failed env calls0 name k
           \<and> length (filter (\<lambda>r. r = None) (returned c)) \<le> k
           \<and> (all_done c \<longrightarrow> length (filter (\<lambda>r. r = None) (returned c)) = k)
           \<and> (load_calls (shared c) = calls0 @ replicate k name
                \<and> loaded_models (shared c) name = None
                \<and> set (returned c) \<subseteq> {None}
              \<or> (\<exists>m. attempt env calls0 name k = Inr m
                    \<and> load_calls (shared c) = calls0 @ replicate (Suc k) name
                    \<and> Suc k \<le> length (threads c)
                    \<and> set (returned c) \<subseteq> {None, Some m}
                    \<and> (loaded_models (shared c) name = Some m
                        \<or> loaded_models (shared c) name = None
                          \<and> set (returned c) \<subseteq> {None} \<and> \<not> all_done c)))"
proof -
  let ?k = "failed_callers c"
  let ?pA = "\<lambda>p. case p of
                 Loaded m \<Rightarrow> False | Leaving r \<Rightarrow> r = None | Done r \<Rightarrow> r = None | _ \<Rightarrow> True"
  let ?A = "loaded_models (shared c) name = None
           \<and> load_calls (shared c) = calls0 @ replicate ?k name
           \<and> (\<forall>j < length (threads c). ?pA (snd (threads c ! j)))"
  let ?B = "\<lambda>m. attempt env calls0 name ?k = Inr m
              \<and> load_calls (shared c) = calls0 @ replicate (Suc ?k) name
              \<and> loaded_models (shared c) name = None
              \<and> (\<exists>j < length (threads c). snd (threads c ! j) = Loaded m)
              \<and> (\<forall>j < length (threads c). snd (threads c ! j) \<in> {Start, Loaded m, Done None})"
  let ?C = "\<lambda>m. attempt env calls0 name ?k = Inr m
              \<and> load_calls (shared c) = calls0 @ replicate (Suc ?k) name
              \<and> loaded_models (shared c) name = Some m
              \<and> (\<exists>j < length (threads c).
                         snd (threads c ! j) \<in> {Leaving (Some m), Done (Some m)})
              \<and> (\<forall>j < length (threads c).
                         snd (threads c ! j)
                           \<in> {Start, Locked, Leaving (Some m), Done (Some m), Done None})"
  let ?R = "\<lambda>k. load_calls (shared c) = calls0 @ replicate k name
                \<and> loaded_models (shared c) name = None
                \<and> set (returned c) \<subseteq> {None}
              \<or> (\<exists>m. attempt env calls0 name k = Inr m
                    \<and> load_calls (shared c) = calls0 @ replicate (Suc k) name
                    \<and> Suc k \<le> length (threads c)
                    \<and> set (returned c) \<subseteq> {None, Some m}
                    \<and> (loaded_models (shared c) name = Some m
                        \<or> loaded_models (shared c) name = None
                          \<and> set (returned c) \<subseteq> {None} \<and> \<not> all_done c))"
  from inv have fails: "all_failed env calls0 name ?k"
    and phases: "?A \<or> (\<exists>m. ?B m) \<or> (\<exists>m. ?C m)"
    unfolding fetch_inv_def by blast+
  from phases have "?R ?k"
  proof (elim disjE exE)
    assume a: "?A"
    have "set (returned c) \<subseteq> {None}"
    proof
      fix r assume "r \<in> set (returned c)"
      then obtain j where j: "j < length (threads c)" "snd (threads c ! j) = Done r"
        by (auto simp: returned_iff)
      from a j(1) have "?pA (snd (threads c ! j))" by blast
      with j(2) show "r \<in> {None}" by simp
    qed
    with a show ?thesis by blast
  next
    fix m assume b: "?B m"
    then obtain i where i: "i < length (threads c)" "snd (threads c ! i) = Loaded m"
      by blast
    then have "failed_callers c < length (threads c)"
      by (intro failed_callers_less [of i]) simp_all
    then have lt: "Suc ?k \<le> length (threads c)" by simp
    have ret: "set (returned c) \<subseteq> {None}"
    proof
      fix r assume "r \<in> set (returned c)"
      then obtain j where j: "j < length (threads c)" "snd (threads c ! j) = Done r"
        by (auto simp: returned_iff)
      from b j(1) have "snd (threads c ! j) \<in> {Start, Loaded m, Done None}" by blast
      with j(2) show "r \<in> {None}" by simp
    qed
    have nd: "\<not> all_done c"
    proof
      assume "all_done c"
      from all_done_nth [OF this i(1)] i(2) show False by simp
    qed
    from ret have "set (returned c) \<subseteq> {None, Some m}" by blast
    with b lt ret nd show ?thesis by blast
  next
    fix m assume cm: "?C m"
    then obtain i where i: "i < length (threads c)"
      "snd (threads c ! i) \<in> {Leaving (Some m), Done (Some m)}"
      by blast
    then have "got_none (snd (threads c ! i)) = 0" by auto
    with i(1) have "failed_callers c < length (threads c)"
      by (rule failed_callers_less)
    then have lt: "Suc ?k \<le> length (threads c)" by simp
    have ret: "set (returned c) \<subseteq> {None, Some m}"
    proof
      fix r assume "r \<in> set (returned c)"
      then obtain j where j: "j < length (threads c)" "snd (threads c ! j) = Done r"
        by (auto simp: returned_iff)
      from cm j(1) have "snd (threads c ! j)
              \<in> {Start, Locked, Leaving (Some m), Done (Some m), Done None}" by blast
      with j(2) show "r \<in> {None, Some m}" by auto
    qed
    with cm lt show ?thesis by blast
  qed
  with fails none_returned_le [of c] none_returned_eq [of c] failed_callers_le [of c]
  show ?thesis
    by (intro exI [of _ ?k]) simp
qed

lemma fetch_inv_run:
  assumes "loaded_models st name = None"
  shows "fetch_inv env name (load_calls st) (run_schedule env sched (start_config n name st))"
proof (rule run_schedule_induct)
  show "fetch_inv env name (load_calls st) (start_config n name st)"
    using assms by (rule fetch_inv_start)
next
  fix i c c'
  assume "fetch_inv env name (load_calls st) c" and "thread_step env i c = Some c'"
  then show "fetch_inv env name (load_calls st) c'"
    by (rule fetch_inv_step)
qed

lemma failing_caller:
  assumes "i < length (threads c)" and "threads c ! i = (name, Loading)"
      and "whisper_load_model env (load_calls (shared c)) name = Inl e"
  shows "snd (threads (run_schedule env [i, i, i] c) ! i) = Done None"
    and "loaded_models (shared (run_schedule env [i, i, i] c)) = loaded_models (shared c)"
    and "load_calls (shared (run_schedule env [i, i, i] c)) = load_calls (shared c) @ [name]"
    and "\<not> lock_held (run_schedule env [i, i, i] c)"
  using assms by (simp_all add: thread_step_def Let_def)

lemma fetch_inv_names:
  assumes "fetch_inv env name calls0 c" and "i < length (threads c)"
  shows "fst (threads c ! i) = name"
  using assms unfolding fetch_inv_def by blast

text \<open>
  C3 (amended). \<open>n\<close> callers fetch the same uncached identifier at the same time, under
  any schedule and with any engine. The lock is held exactly while one caller is between
  the cache test and its return, and never two callers are. While a caller has not
  returned some caller can move, and every step brings the callers closer to their
  returns, so all of them return. The invocations of the engine are some \<open>k\<close> that fail,
  followed by at most one that succeeds, and none after a success. A caller whose own
  attempt fails receives \<open>None\<close> and inserts nothing, and a later caller attempts the
  load again: at most \<open>k\<close> callers have received \<open>None\<close>, exactly \<open>k\<close> once all have
  returned. If no invocation has succeeded, nothing is cached and nobody holds an instance.
  If one has, with \<open>m\<close>, then no caller holds another instance, and \<open>m\<close> is cached from
  its insertion on, before any caller receives it. A caller that is about to invoke the
  engine, when the engine raises, goes on to return \<open>None\<close>, leaves the mapping as it was,
  adds one invocation and releases the lock. In particular: when the first load
  succeeds, the engine is invoked exactly once and every caller receives \<open>m\<close>; when the
  engine raises at every attempt, every caller receives \<open>None\<close>, nothing is cached and
  the engine is invoked \<open>n\<close> times, once by each caller.
\<close>

theorem C3_concurrent_first_fetches:
  assumes "loaded_models st name = None"
      and "c = run_schedule env sched (start_config n name st)"
  shows "guard_ok c
       \<and> (\<not> all_done c \<longrightarrow> (\<exists>i < n. thread_step env i c \<noteq> None))
       \<and> (\<forall>i c'. thread_step env i c = Some c' \<longrightarrow> work_left c' < work_left c)
       \<and> (\<exists>k \<le> n.
             all_failed env (load_calls st) name k
             \<and> length (filter (\<lambda>r. r = None) (returned c)) \<le> k
             \<and> (all_done c \<longrightarrow> length (filter (\<lambda>r. r = None) (returned c)) = k)
             \<and> (load_calls (shared c) = load_calls st @ replicate k name
                  \<and> loaded_models (shared c) name = None
                  \<and> set (returned c) \<subseteq> {None}
                \<or> (\<exists>m. attempt env (load_calls st) name k = Inr m
                      \<and> load_calls (shared c) = load_calls st @ replicate (Suc k) name
                      \<and> Suc k \<le> n
                      \<and> set (returned c) \<subseteq> {None, Some m}
                      \<and> (loaded_models (shared c) name = Some m
                          \<or> loaded_models (shared c) name = None
                            \<and> set (returned c) \<subseteq> {None} \<and> \<not> all_done c))))
       \<and> (\<forall>i e. i < n \<and> snd (threads c ! i) = Loading
                 \<and> whisper_load_model env (load_calls (shared c)) name = Inl e \<longrightarrow>
              snd (threads (run_schedule env [i, i, i] c) ! i) = Done None
              \<and> loaded_models (shared (run_schedule env [i, i, i] c)) = loaded_models (shared c)
              \<and> load_calls (shared (run_schedule env [i, i, i] c))
                  = load_calls (shared c) @ [name]
              \<and> \<not> lock_held (run_schedule env [i, i, i] c))
       \<and> (whisper_load_model env (load_calls st) name = Inr m \<longrightarrow>
            set (returned c) \<subseteq> {Some m}
            \<and> (load_calls (shared c) = load_calls st
                \<or> load_calls (shared c) = load_calls st @ [name])
            \<and> (returned c \<noteq> [] \<longrightarrow>
                  load_calls (shared c) = load_calls st @ [name]
                  \<and> loaded_models (shared c) name = Some m))
       \<and> ((\<forall>h. \<exists>e. whisper_load_model env h name = Inl e) \<longrightarrow>
            set (returned c) \<subseteq> {None}
            \<and> loaded_models (shared c) name = None
            \<and> (all_done c \<longrightarrow> load_calls (shared c) = load_calls st @ replicate n name))"
proof -
  have len: "length (threads c) = n"
    by (simp add: assms(2) run_schedule_length) (simp add: start_config_def)
  have g: "guard_ok c"
    unfolding assms(2) by (rule guard_ok_run) (rule guard_ok_start)
  have live: "\<not> all_done c \<longrightarrow> (\<exists>i < n. thread_step env i c \<noteq> None)"
    using no_deadlock [OF g, of env] len by simp
  have decr: "\<forall>i c'. thread_step env i c = Some c' \<longrightarrow> work_left c' < work_left c"
    by (simp add: work_left_step)
  have once: "whisper_load_model env (load_calls st) name = Inr m \<longrightarrow>
            set (returned c) \<subseteq> {Some m}
            \<and> (load_calls (shared c) = load_calls st
                \<or> load_calls (shared c) = load_calls st @ [name])
            \<and> (returned c \<noteq> [] \<longrightarrow>
                  load_calls (shared c) = load_calls st @ [name]
                  \<and> loaded_models (shared c) name = Some m)"
  proof
    assume "whisper_load_model env (load_calls st) name = Inr m"
    with assms(1) have "loads_once name m (load_calls st) c"
      unfolding assms(2) by (rule loads_once_run)
    from loads_once_results [OF this] show "set (returned c) \<subseteq> {Some m}
            \<and> (load_calls (shared c) = load_calls st
                \<or> load_calls (shared c) = load_calls st @ [name])
            \<and> (returned c \<noteq> [] \<longrightarrow>
                  load_calls (shared c) = load_calls st @ [name]
                  \<and> loaded_models (shared c) name = Some m)"
      by blast
  qed
  have each: "(\<forall>h. \<exists>e. whisper_load_model env h name = Inl e) \<longrightarrow>
            set (returned c) \<subseteq> {None}
            \<and> loaded_models (shared c) name = None
            \<and> (all_done c \<longrightarrow> load_calls (shared c) = load_calls st @ replicate n name)"
  proof
    assume "\<forall>h. \<exists>e. whisper_load_model env h name = Inl e"
    with assms(1) have "loads_each_time name (load_calls st) c"
      unfolding assms(2) by (intro loads_each_time_run) simp_all
    from loads_each_time_results [OF this] len show "set (returned c) \<subseteq> {None}
            \<and> loaded_models (shared c) name = None
            \<and> (all_done c \<longrightarrow> load_calls (shared c) = load_calls st @ replicate n name)"
      by simp
  qed
  have inv: "fetch_inv env name (load_calls st) c"
    unfolding assms(2) using assms(1) by (rule fetch_inv_run)
  have per: "\<forall>i e. i < n \<and> snd (threads c ! i) = Loading
                 \<and> whisper_load_model env (load_calls (shared c)) name = Inl e \<longrightarrow>
              snd (threads (run_schedule env [i, i, i] c) ! i) = Done None
              \<and> loaded_models (shared (run_schedule env [i, i, i] c)) = loaded_models (shared c)
              \<and> load_calls (shared (run_schedule env [i, i, i] c))
                  = load_calls (shared c) @ [name]
              \<and> \<not> lock_held (run_schedule env [i, i, i] c)"
  proof (intro allI impI, elim conjE)
    fix i e
    assume i: "i < n" and pc: "snd (threads c ! i) = Loading"
      and raises: "whisper_load_model env (load_calls (shared c)) name = Inl e"
    from i len have il: "i < length (threads c)" by simp
    with inv have "fst (threads c ! i) = name" by (rule fetch_inv_names)
    with pc have t: "threads c ! i = (name, Loading)"
      by (simp add: prod_eq_iff)
    from failing_caller [OF il t raises]
    show "snd (threads (run_schedule env [i, i, i] c) ! i) = Done None
              \<and> loaded_models (shared (run_schedule env [i, i, i] c)) = loaded_models (shared c)
              \<and> load_calls (shared (run_schedule env [i, i, i] c))
                  = load_calls (shared c) @ [name]
              \<and> \<not> lock_held (run_schedule env [i, i, i] c)"
      by (intro conjI)
  qed
  from fetch_inv_results [OF inv] have gen: "\<exists>k \<le> n.
             all_failed env (load_calls st) name k
             \<and> length (filter (\<lambda>r. r = None) (returned c)) \<le> k
             \<and> (all_done c \<longrightarrow> length (filter (\<lambda>r. r = None) (returned c)) = k)
             \<and> (load_calls (shared c) = load_calls st @ replicate k name
                  \<and> loaded_models (shared c) name = None
                  \<and> set (returned c) \<subseteq> {None}
                \<or> (\<exists>m. attempt env (load_calls st) name k = Inr m
                      \<and> load_calls (shared c) = load_calls st @ replicate (Suc k) name
                      \<and> Suc k \<le> n
                      \<and> set (returned c) \<subseteq> {None, Some m}
                      \<and> (loaded_models (shared c) name = Some m
                          \<or> loaded_models (shared c) name = None
                            \<and> set (returned c) \<subseteq> {None} \<and> \<not> all_done c)))"
    unfolding len .
  from g live decr gen per once each show ?thesis
    by (intro conjI)
qed

lemmas conc_defs = thread_step_def start_config_def init_state_def logger_def Let_def
  returned_def all_done_def

theorem C3_witness:
  "loaded_models (init_state :: nat state) ''base'' = None
   \<and> whisper_load_model env_ok (load_calls (init_state :: nat state)) ''base'' = Inr 0
   \<and> returned (run_schedule env_ok [0, 1, 0, 0, 1, 0, 0, 1, 1, 1, 1, 1]
         (start_config 2 ''base'' init_state)) = [Some 0, Some 0]
   \<and> guard_ok (run_schedule env_ok [0, 1, 0, 0, 1, 0, 0, 1, 1, 1, 1, 1]
         (start_config 2 ''base'' init_state))
   \<and> load_calls (shared (run_schedule env_ok [0, 1, 0, 0, 1, 0, 0, 1, 1, 1, 1, 1]
         (start_config 2 ''base'' init_state))) = [''base'']
   \<and> loaded_models (shared (run_schedule env_ok [0, 1, 0, 0, 1, 0, 0, 1, 1, 1, 1, 1]
         (start_config 2 ''base'' init_state))) ''base'' = Some 0
   \<and> all_done (run_schedule (env_load_fails ''RuntimeError'' ''CUDA out of memory'')
         [0, 1, 0, 0, 1, 0, 0, 1, 1, 1, 1, 1] (start_config 2 ''base'' init_state))
   \<and> load_calls (shared (run_schedule (env_load_fails ''RuntimeError'' ''CUDA out of memory'')
         [0, 1, 0, 0, 1, 0, 0, 1, 1, 1, 1, 1] (start_config 2 ''base'' init_state)))
       = [''base'', ''base'']
   \<and> loaded_models (shared (run_schedule (env_load_fails ''RuntimeError'' ''CUDA out of memory'')
         [0, 1, 0, 0, 1, 0, 0, 1, 1, 1, 1, 1] (start_config 2 ''base'' init_state))) ''base'' = None
   \<and> returned (run_schedule env_load_fails_once
         [0, 1, 2, 0, 0, 2, 0, 0, 1, 1, 1, 1, 1, 2, 2, 2]
         (start_config 3 ''base'' init_state)) = [None, Some 1, Some 1]
   \<and> load_calls (shared (run_schedule env_load_fails_once
         [0, 1, 2, 0, 0, 2, 0, 0, 1, 1, 1, 1, 1, 2, 2, 2]
         (start_config 3 ''base'' init_state))) = [''base'', ''base'']
   \<and> loaded_models (shared (run_schedule env_load_fails_once
         [0, 1, 2, 0, 0, 2, 0, 0, 1, 1, 1, 1, 1, 2, 2, 2]
         (start_config 3 ''base'' init_state))) ''base'' = Some 1
   \<and> snd (threads (run_schedule (env_load_fails ''RuntimeError'' ''CUDA out of memory'') [0, 0]
         (start_config 2 ''base'' init_state)) ! 0) = Loading
   \<and> snd (threads (run_schedule (env_load_fails ''RuntimeError'' ''CUDA out of memory'')
         [0, 0, 0] (run_schedule (env_load_fails ''RuntimeError'' ''CUDA out of memory'') [0, 0]
         (start_config 2 ''base'' init_state))) ! 0) = Done None"
proof -
  define down where "down = env_load_fails ''RuntimeError'' ''CUDA out of memory''"
  define sched where "sched = ([0, 1, 0, 0, 1, 0, 0, 1, 1, 1, 1, 1] :: nat list)"
  define ok where "ok = run_schedule env_ok sched (start_config 2 ''base'' init_state)"
  define ko where "ko = run_schedule down sched (start_config 2 ''base'' init_state)"
  have h1: "loaded_models (init_state :: nat state) ''base'' = None"
    by (simp add: init_state_def)
  have h2: "whisper_load_model env_ok (load_calls (init_state :: nat state)) ''base'' = Inr 0"
    by (simp add: init_state_def env_ok_def)
  have h3: "\<forall>h. \<exists>e. whisper_load_model down h ''base'' = Inl e"
    by (simp add: down_def env_load_fails_def env_ok_def)
  have r: "returned ok = [Some 0, Some 0]"
    by (simp add: ok_def sched_def conc_defs env_ok_def numeral_2_eq_2)
  have d: "all_done ko"
    by (simp add: ko_def sched_def down_def conc_defs env_load_fails_def env_ok_def
          numeral_2_eq_2)
  have i: "load_calls (init_state :: nat state) = []"
    by (simp add: init_state_def)
  define sched3 where "sched3 = ([0, 1, 2, 0, 0, 2, 0, 0, 1, 1, 1, 1, 1, 2, 2, 2] :: nat list)"
  define mix where
    "mix = run_schedule env_load_fails_once sched3 (start_config 3 ''base'' init_state)"
  have rm: "returned mix = [None, Some 1, Some 1]"
    by (simp add: mix_def sched3_def conc_defs env_load_fails_once_def env_ok_def
          numeral_3_eq_3 numeral_2_eq_2)
  have dm: "all_done mix"
    by (simp add: mix_def sched3_def conc_defs env_load_fails_once_def env_ok_def
          numeral_3_eq_3 numeral_2_eq_2)
  note gen = C3_concurrent_first_fetches [OF h1 mix_def, of 0,
      THEN conjunct2, THEN conjunct2, THEN conjunct2, THEN conjunct1]
  then obtain k where k: "length (filter (\<lambda>r. r = None) (returned mix)) = k"
    and alt: "load_calls (shared mix) = load_calls (init_state :: nat state) @ replicate k ''base''
                  \<and> loaded_models (shared mix) ''base'' = None
                  \<and> set (returned mix) \<subseteq> {None}
                \<or> (\<exists>m. attempt env_load_fails_once (load_calls (init_state :: nat state)) ''base'' k = Inr m
                      \<and> load_calls (shared mix)
                          = load_calls (init_state :: nat state) @ replicate (Suc k) ''base''
                      \<and> Suc k \<le> 3
                      \<and> set (returned mix) \<subseteq> {None, Some m}
                      \<and> (loaded_models (shared mix) ''base'' = Some m
                          \<or> loaded_models (shared mix) ''base'' = None
                            \<and> set (returned mix) \<subseteq> {None} \<and> \<not> all_done mix))"
    using dm by blast
  from k rm have k1: "k = 1" by simp
  from rm have some: "\<not> set (returned mix) \<subseteq> {None}" by simp
  with alt obtain m where m: "load_calls (shared mix)
                          = load_calls (init_state :: nat state) @ replicate (Suc k) ''base''"
      "set (returned mix) \<subseteq> {None, Some m}" "loaded_models (shared mix) ''base'' = Some m"
    by blast
  from m(2) rm have m1: "m = 1" by simp
  from m m1 k1 i have mixed: "load_calls (shared mix) = [''base'', ''base'']"
    "loaded_models (shared mix) ''base'' = Some 1"
    by simp_all
  define mid where "mid = run_schedule down [0, 0] (start_config 2 ''base'' init_state)"
  have hp: "0 < (2 :: nat) \<and> snd (threads mid ! 0) = Loading
            \<and> whisper_load_model down (load_calls (shared mid)) ''base''
                = Inl (Exception ''RuntimeError'' ''CUDA out of memory'')"
    by (simp add: mid_def down_def conc_defs env_load_fails_def env_ok_def numeral_2_eq_2)
  note per = C3_concurrent_first_fetches [OF h1 mid_def, of 0,
      THEN conjunct2, THEN conjunct2, THEN conjunct2, THEN conjunct2, THEN conjunct1]
  from per [rule_format, OF hp]
  have failing: "snd (threads (run_schedule down [0, 0, 0] mid) ! 0) = Done None"
    by (rule conjunct1)
  from hp have loading: "snd (threads mid ! 0) = Loading"
    by (elim conjE)
  note ok_facts = C3_concurrent_first_fetches [OF h1 ok_def, of 0]
  note ko_facts = C3_concurrent_first_fetches [OF h1 ko_def, of 0]
  from ok_facts have "guard_ok ok"
    by (rule conjunct1)
  moreover from ok_facts h2 r have "load_calls (shared ok) = [''base'']"
    and "loaded_models (shared ok) ''base'' = Some 0"
    by (simp_all add: i)
  moreover from ko_facts h3 d have "load_calls (shared ko) = [''base'', ''base'']"
    and "loaded_models (shared ko) ''base'' = None"
    by (simp_all add: i numeral_2_eq_2)
  ultimately have "loaded_models (init_state :: nat state) ''base'' = None
   \<and> whisper_load_model env_ok (load_calls (init_state :: nat state)) ''base'' = Inr 0
   \<and> returned ok = [Some 0, Some 0]
   \<and> guard_ok ok
   \<and> load_calls (shared ok) = [''base'']
   \<and> loaded_models (shared ok) ''base'' = Some 0
   \<and> all_done ko
   \<and> load_calls (shared ko) = [''base'', ''base'']
   \<and> loaded_models (shared ko) ''base'' = None
   \<and> returned mix = [None, Some 1, Some 1]
   \<and> load_calls (shared mix) = [''base'', ''base'']
   \<and> loaded_models (shared mix) ''base'' = Some 1
   \<and> snd (threads mid ! 0) = Loading
   \<and> snd (threads (run_schedule down [0, 0, 0] mid) ! 0) = Done None"
    using h1 h2 r d rm mixed loading failing by (intro conjI)
  then show ?thesis
    unfolding ok_def ko_def mix_def mid_def sched_def sched3_def down_def .
qed

text \<open>
  Two callers and an engine that raises: the engine is invoked twice, not once. And with
  an engine that raises at its first invocation only, the first caller receives \<open>None\<close>
  and the second an instance: not all callers receive the failure.
\<close>

theorem C3_counterexample:
  "load_calls (shared (run_schedule (env_load_fails ''RuntimeError'' ''CUDA out of memory'')
       [0, 0, 0, 0, 0, 1, 1, 1, 1, 1] (start_config 2 ''base'' init_state))) = [''base'', ''base'']
   \<and> returned (run_schedule (env_load_fails ''RuntimeError'' ''CUDA out of memory'')
       [0, 0, 0, 0, 0, 1, 1, 1, 1, 1] (start_config 2 ''base'' init_state)) = [None, None]
   \<and> returned (run_schedule env_load_fails_once
       [0, 0, 0, 0, 0, 1, 1, 1, 1, 1] (start_config 2 ''base'' init_state)) = [None, Some 1]
   \<and> load_calls (shared (run_schedule env_load_fails_once
       [0, 0, 0, 0, 0, 1, 1, 1, 1, 1] (start_config 2 ''base'' init_state))) = [''base'', ''base'']"
  by (simp add: conc_defs env_load_fails_def env_load_fails_once_def env_ok_def numeral_2_eq_2)

end
